theory Spec2Isabelle
  imports Complex_Main
begin

section \<open>Python values, errors and containers\<close>

text \<open>
  Every exception the modelled code can raise is a value. \<open>ValueError\<close> and
  \<open>RuntimeError\<close> carry the message of the \<^verbatim>\<open>raise\<close> statement
  (the \<^verbatim>\<open>{0}\<close> of a format string is left unfilled), \<open>KeyError\<close> the
  missing key of a dictionary, \<open>AttributeError\<close> the attribute read.
\<close>

datatype error =
    ValueError string
  | RuntimeError string
  | KeyError int
  | IndexError
  | AttributeError string
  | TypeError
  | AssertionError

definition bindE :: "error + 'a \<Rightarrow> ('a \<Rightarrow> error + 'b) \<Rightarrow> error + 'b" where
  "bindE m f = (case m of Inl e \<Rightarrow> Inl e | Inr v \<Rightarrow> f v)"

text \<open>\<^verbatim>\<open>xs[i]\<close> on a Python list: a negative index counts from the end.\<close>

definition list_get :: "'a list \<Rightarrow> int \<Rightarrow> error + 'a" where
  "list_get xs i =
     (if 0 \<le> i \<and> i < int (length xs) then Inr (xs ! nat i)
      else if i < 0 \<and> - int (length xs) \<le> i then Inr (xs ! nat (int (length xs) + i))
      else Inl IndexError)"

text \<open>\<^verbatim>\<open>d[k]\<close> on a dictionary keyed by integers.\<close>

definition dict_get :: "(int \<rightharpoonup> 'a) \<Rightarrow> int \<Rightarrow> error + 'a" where
  "dict_get d k = (case d k of None \<Rightarrow> Inl (KeyError k) | Some v \<Rightarrow> Inr v)"

text \<open>\<^verbatim>\<open>range(a, b)\<close> is \<open>[a..b - 1]\<close>, \<^verbatim>\<open>range(a, b, -1)\<close> is \<open>rev [b + 1..a]\<close>.\<close>

definition range2 :: "int \<Rightarrow> int \<Rightarrow> int list" where
  "range2 a b = [a..b - 1]"

definition range_down :: "int \<Rightarrow> int \<Rightarrow> int list" where
  "range_down a b = rev [b + 1..a]"

section \<open>Tensors\<close>

text \<open>
  A tensor is its shape and its elements in row-major order. The elements are real
  numbers: the rounding of floating point arithmetic is not modelled. A tensor of the
  tensor engine always holds as many elements as its shape says (\<open>wf_tensor\<close>).
\<close>

record tensor =
  shape :: "nat list"
  data :: "real list"

definition wf_tensor :: "tensor \<Rightarrow> bool" where
  "wf_tensor t = (length (data t) = prod_list (shape t))"

text \<open>\<^verbatim>\<open>x.size(d)\<close>\<close>

definition size_dim :: "tensor \<Rightarrow> nat \<Rightarrow> error + nat" where
  "size_dim t d = (if d < length (shape t) then Inr (shape t ! d) else Inl IndexError)"

text \<open>\<^verbatim>\<open>len(x)\<close>: the size of the first dimension.\<close>

definition len_tensor :: "tensor \<Rightarrow> error + nat" where
  "len_tensor t = (case shape t of [] \<Rightarrow> Inl TypeError | n # _ \<Rightarrow> Inr n)"

text \<open>
  \<^verbatim>\<open>x.permute(0, 2, 1)\<close>: element \<open>(b, i, j)\<close> of the result is element
  \<open>(b, j, i)\<close> of the argument. The result is written out in its own row-major order.
\<close>

definition permute_021 :: "tensor \<Rightarrow> error + tensor" where
  "permute_021 t =
     (case shape t of
        [b, c, v] \<Rightarrow>
          Inr \<lparr>shape = [b, v, c],
               data = map (\<lambda>k. data t ! (k div (v * c) * (c * v) + k mod c * v
                                            + k mod (v * c) div c))
                          [0..<b * v * c]\<rparr>
      | _ \<Rightarrow> Inl (RuntimeError ''permute: number of dims does not match''))"

text \<open>\<^verbatim>\<open>x.reshape(*s)\<close> and \<^verbatim>\<open>x.view(*s)\<close>: the same elements under a new shape.\<close>

definition reshape :: "tensor \<Rightarrow> nat list \<Rightarrow> error + tensor" where
  "reshape t s =
     (if prod_list s = prod_list (shape t) then Inr (t\<lparr>shape := s\<rparr>)
      else Inl (RuntimeError ''shape is invalid for input size''))"

definition view :: "tensor \<Rightarrow> nat list \<Rightarrow> error + tensor" where
  "view t s =
     (if prod_list s = prod_list (shape t) then Inr (t\<lparr>shape := s\<rparr>)
      else Inl (RuntimeError ''shape is invalid for input size''))"

text \<open>
  \<^verbatim>\<open>torch.cat((a, b), 1)\<close>: the two tensors agree in every dimension but the
  second; per entry of the first dimension, the block of \<open>a\<close> is followed by the block
  of \<open>b\<close>.
\<close>

definition torch_cat1 :: "tensor \<Rightarrow> tensor \<Rightarrow> error + tensor" where
  "torch_cat1 a b =
     (case (shape a, shape b) of
        (n # c1 # rest, n' # c2 # rest') \<Rightarrow>
          if n = n' \<and> rest = rest' then
            Inr \<lparr>shape = n # (c1 + c2) # rest,
                 data = concat (map (\<lambda>i.
                     take (c1 * prod_list rest) (drop (i * (c1 * prod_list rest)) (data a))
                   @ take (c2 * prod_list rest) (drop (i * (c2 * prod_list rest)) (data b)))
                   [0..<n])\<rparr>
          else Inl (RuntimeError ''Sizes of tensors must match except in dimension 1'')
      | _ \<Rightarrow> Inl (RuntimeError ''Dimension out of range''))"

text \<open>
  \<^verbatim>\<open>nn.Linear(in_features, out_features)\<close>: \<open>weight l o j\<close> is entry \<open>(o, j)\<close>
  of the weight matrix. Applied to a tensor whose last dimension is \<open>in_features\<close>,
  every row \<open>r\<close> becomes \<open>weight \<cdot> r + bias\<close>.
\<close>

record linear =
  in_features :: nat
  out_features :: nat
  weight :: "nat \<Rightarrow> nat \<Rightarrow> real"
  bias :: "nat \<Rightarrow> real"

definition Linear_forward :: "linear \<Rightarrow> tensor \<Rightarrow> error + tensor" where
  "Linear_forward l t =
     (if shape t \<noteq> [] \<and> last (shape t) = in_features l then
        Inr \<lparr>shape = butlast (shape t) @ [out_features l],
             data = map (\<lambda>k. (\<Sum>j\<leftarrow>[0..<in_features l].
                                  data t ! (k div out_features l * in_features l + j)
                                  * weight l (k mod out_features l) j)
                              + bias l (k mod out_features l))
                        [0..<prod_list (butlast (shape t)) * out_features l]\<rparr>
      else Inl (RuntimeError ''mat1 and mat2 shapes cannot be multiplied''))"

text \<open>
  The per-vertex reading of the final projection, in the words of the specification:
  \<open>at3 t b c v\<close> is element \<open>(b, c, v)\<close> of a batch \<open>\<times>\<close> channels \<open>\<times>\<close> vertices
  tensor, \<open>feature_vector t b v\<close> the channel values of vertex \<open>v\<close> in sample \<open>b\<close>,
  and \<open>linear_apply l\<close> the linear map on one feature vector.
\<close>

definition at3 :: "tensor \<Rightarrow> nat \<Rightarrow> nat \<Rightarrow> nat \<Rightarrow> real" where
  "at3 t b c v = data t ! ((b * (shape t ! 1) + c) * (shape t ! 2) + v)"

definition feature_vector :: "tensor \<Rightarrow> nat \<Rightarrow> nat \<Rightarrow> real list" where
  "feature_vector t b v = map (\<lambda>c. at3 t b c v) [0..<shape t ! 1]"

definition linear_apply :: "linear \<Rightarrow> real list \<Rightarrow> real list" where
  "linear_apply l xs =
     map (\<lambda>oc. (\<Sum>j\<leftarrow>[0..<in_features l]. xs ! j * weight l oc j) + bias l oc)
         [0..<out_features l]"

section \<open>The mesh hierarchy\<close>

text \<open>
  The geometric primitives of \<^verbatim>\<open>surfify.utils\<close> are not part of the sources at
  hand; they are parameters of the model. \<open>neighbors\<close> and \<open>interpolate\<close> return a
  dictionary, here the list of its items in order, of which the code keeps
  \<^verbatim>\<open>list(d.values())\<close>. The arguments \<^verbatim>\<open>direct_neighbor=True\<close>,
  \<^verbatim>\<open>size=5\<close> and \<^verbatim>\<open>zoom=5\<close> are constant in the code and left out.
\<close>

type_synonym vertex_array = "real list list"
type_synonym triangle_array = "nat list list"
type_synonym index_array = "nat list list"

record geometry =
  icosahedron :: "int \<Rightarrow> vertex_array \<times> triangle_array"
  neighbors :: "vertex_array \<Rightarrow> triangle_array \<Rightarrow> int \<Rightarrow> (nat \<times> nat list) list"
  neighbors_rec :: "vertex_array \<Rightarrow> triangle_array \<Rightarrow> index_array \<times> real list list"
  downsample :: "vertex_array \<Rightarrow> vertex_array \<Rightarrow> index_array"
  interpolate :: "vertex_array \<Rightarrow> vertex_array \<Rightarrow> triangle_array \<Rightarrow> (nat \<times> nat list) list"
  number_of_ico_vertices :: "int \<Rightarrow> nat"

text \<open>
  The neighbour table of the convolution: an index array for the ring modes, the pair
  \<^verbatim>\<open>(conv_neighs, conv_weights)\<close> for \<^verbatim>\<open>"repa"\<close>.
\<close>

datatype conv_neighs =
    RingNeighs index_array
  | RepaNeighs index_array "real list list"

record Ico =
  order :: int
  vertices :: vertex_array
  triangles :: triangle_array
  neighbor_indices :: index_array
  down_indices :: "index_array option"
  up_indices :: "index_array option"
  conv_neighbor_indices :: conv_neighs

text \<open>The calls of the geometric primitives and of the layer constructors, in order.\<close>

datatype event =
    CallIcosahedron int
  | CallNeighbors int int
  | CallNeighborsRec int
  | CallDownsample int
  | CallInterpolate int
  | BuildDownBlock int
  | BuildUpBlock int
  | BuildLinear

text \<open>
  First loop of \<^verbatim>\<open>SphericalUNet.__init__\<close>: per order, the mesh, the depth-1
  neighbours, and the neighbour table of the convolution mode.
\<close>

fun ico_loop ::
  "geometry \<Rightarrow> string \<Rightarrow> int list \<Rightarrow> (int \<rightharpoonup> Ico) \<Rightarrow> event list
     \<Rightarrow> (error + (int \<rightharpoonup> Ico)) \<times> event list" where
  "ico_loop G cm [] ico ev = (Inr ico, ev)"
| "ico_loop G cm (k # ks) ico ev =
     (let vs = fst (icosahedron G k);
          ts = snd (icosahedron G k);
          neighs = map snd (neighbors G vs ts 1);
          ev1 = ev @ [CallIcosahedron k, CallNeighbors k 1]
      in if cm = ''1ring'' then
           ico_loop G cm ks
             (ico(k \<mapsto> \<lparr>order = k, vertices = vs, triangles = ts, neighbor_indices = neighs,
                         down_indices = None, up_indices = None,
                         conv_neighbor_indices = RingNeighs neighs\<rparr>)) ev1
         else if cm = ''2ring'' then
           ico_loop G cm ks
             (ico(k \<mapsto> \<lparr>order = k, vertices = vs, triangles = ts, neighbor_indices = neighs,
                         down_indices = None, up_indices = None,
                         conv_neighbor_indices = RingNeighs (map snd (neighbors G vs ts 2))\<rparr>))
             (ev1 @ [CallNeighbors k 2])
         else if cm = ''repa'' then
           ico_loop G cm ks
             (ico(k \<mapsto> \<lparr>order = k, vertices = vs, triangles = ts, neighbor_indices = neighs,
                         down_indices = None, up_indices = None,
                         conv_neighbor_indices =
                           RepaNeighs (fst (neighbors_rec G vs ts)) (snd (neighbors_rec G vs ts))\<rparr>))
             (ev1 @ [CallNeighborsRec k])
         else (Inl (ValueError ''Unexptected convolution mode.''), ev1))"

text \<open>Second loop: the downsampling indices, from the finest order down to order 2.\<close>

fun down_indices_loop ::
  "geometry \<Rightarrow> int list \<Rightarrow> (int \<rightharpoonup> Ico) \<Rightarrow> event list
     \<Rightarrow> (error + (int \<rightharpoonup> Ico)) \<times> event list" where
  "down_indices_loop G [] ico ev = (Inr ico, ev)"
| "down_indices_loop G (k # ks) ico ev =
     (case dict_get ico k of Inl e \<Rightarrow> (Inl e, ev) | Inr fine \<Rightarrow>
     (case dict_get ico (k - 1) of Inl e \<Rightarrow> (Inl e, ev) | Inr coarse \<Rightarrow>
        down_indices_loop G ks
          (ico(k \<mapsto> fine\<lparr>down_indices := Some (downsample G (vertices fine) (vertices coarse))\<rparr>))
          (ev @ [CallDownsample k])))"

text \<open>Third loop: the upsampling indices, from order 1 up to \<open>in_order - 1\<close>.\<close>

fun up_indices_loop ::
  "geometry \<Rightarrow> int list \<Rightarrow> (int \<rightharpoonup> Ico) \<Rightarrow> event list
     \<Rightarrow> (error + (int \<rightharpoonup> Ico)) \<times> event list" where
  "up_indices_loop G [] ico ev = (Inr ico, ev)"
| "up_indices_loop G (k # ks) ico ev =
     (case dict_get ico k of Inl e \<Rightarrow> (Inl e, ev) | Inr coarse \<Rightarrow>
     (case dict_get ico (k + 1) of Inl e \<Rightarrow> (Inl e, ev) | Inr fine \<Rightarrow>
        up_indices_loop G ks
          (ico(k \<mapsto> coarse\<lparr>up_indices :=
                  Some (map snd (interpolate G (vertices coarse) (vertices fine) (triangles fine)))\<rparr>))
          (ev @ [CallInterpolate k])))"

text \<open>Lines 117 to 167 of \<^verbatim>\<open>unet.py\<close>: the three loops in sequence.\<close>

definition build_hierarchy ::
  "geometry \<Rightarrow> int \<Rightarrow> string \<Rightarrow> (error + (int \<rightharpoonup> Ico)) \<times> event list" where
  "build_hierarchy G in_order conv_mode =
     (case ico_loop G conv_mode (range2 1 (in_order + 1)) Map.empty [] of
        (Inl e, ev) \<Rightarrow> (Inl e, ev)
      | (Inr ico1, ev1) \<Rightarrow>
     (case down_indices_loop G (range_down in_order 1) ico1 ev1 of
        (Inl e, ev) \<Rightarrow> (Inl e, ev)
      | (Inr ico2, ev2) \<Rightarrow> up_indices_loop G (range2 1 in_order) ico2 ev2))"

section \<open>Layers and blocks\<close>

text \<open>
  The layers of \<^verbatim>\<open>surfify.nn\<close> and of the tensor engine are not part of the
  sources at hand. A layer is the record of its constructor call; what it computes is
  a parameter of the model (\<open>engine\<close>). Index tables that the code reads from a field
  which may hold \<^verbatim>\<open>None\<close> are passed on as they are.
\<close>

datatype conv_layer = IcoRePaConv | IcoDiNeConv

datatype layer =
    ConvLayer conv_layer nat nat conv_neighs
  | BatchNorm1d nat
  | LeakyReLU
  | IcoPool "index_array option" "index_array option" string
  | IcoUpSample nat nat "index_array option"
  | IcoFixIndexUpSample nat nat "index_array option"
  | IcoMaxIndexUpSample nat nat index_array "index_array option"
  | IcoUpConv nat nat index_array "index_array option"

record engine =
  run_layer :: "layer \<Rightarrow> tensor \<Rightarrow> error + tensor"
  run_pool :: "layer \<Rightarrow> tensor \<Rightarrow> error + (tensor \<times> tensor option)"
  run_unpool :: "layer \<Rightarrow> tensor \<Rightarrow> tensor option \<Rightarrow> error + tensor"

text \<open>\<^verbatim>\<open>nn.Sequential\<close>: the layers one after the other.\<close>

fun Sequential :: "engine \<Rightarrow> layer list \<Rightarrow> tensor \<Rightarrow> error + tensor" where
  "Sequential E [] x = Inr x"
| "Sequential E (l # ls) x = bindE (run_layer E l x) (Sequential E ls)"

text \<open>conv, batch norm, leaky ReLU, twice: the body of both kinds of block.\<close>

definition double_conv_layers :: "conv_layer \<Rightarrow> nat \<Rightarrow> nat \<Rightarrow> conv_neighs \<Rightarrow> layer list" where
  "double_conv_layers cl in_ch out_ch cni =
     [ConvLayer cl in_ch out_ch cni, BatchNorm1d out_ch, LeakyReLU,
      ConvLayer cl out_ch out_ch cni, BatchNorm1d out_ch, LeakyReLU]"

record DownBlock =
  first :: bool
  pooling :: "layer option"
  block :: "layer list"

definition DownBlock_init ::
  "conv_layer \<Rightarrow> nat \<Rightarrow> nat \<Rightarrow> conv_neighs \<Rightarrow> index_array option \<Rightarrow> index_array option
     \<Rightarrow> string \<Rightarrow> bool \<Rightarrow> DownBlock" where
  "DownBlock_init cl in_ch out_ch cni down_neigh dn_idx pool_mode fst_blk =
     \<lparr>first = fst_blk,
      pooling = (if \<not> fst_blk then Some (IcoPool down_neigh dn_idx pool_mode) else None),
      block = double_conv_layers cl in_ch out_ch cni\<rparr>"

definition DownBlock_forward ::
  "engine \<Rightarrow> DownBlock \<Rightarrow> tensor \<Rightarrow> error + (tensor \<times> tensor option)" where
  "DownBlock_forward E b x =
     bindE (if \<not> first b then
              (case pooling b of
                 None \<Rightarrow> Inl (AttributeError ''pooling'')
               | Some p \<Rightarrow> run_pool E p x)
            else Inr (x, None))
       (\<lambda>pooled. bindE (Sequential E (block b) (fst pooled))
          (\<lambda>y. Inr (y, snd pooled)))"

text \<open>
  The fields of \<^verbatim>\<open>UpBlock\<close> are \<^verbatim>\<open>up_mode\<close>, \<^verbatim>\<open>up\<close> and
  \<^verbatim>\<open>double_conv\<close>; the first two are prefixed here, since the network has fields
  of the same names.
\<close>

record UpBlock =
  ub_up_mode :: string
  ub_up :: layer
  double_conv :: "layer list"

definition UpBlock_init ::
  "conv_layer \<Rightarrow> nat \<Rightarrow> nat \<Rightarrow> conv_neighs \<Rightarrow> index_array \<Rightarrow> index_array option
     \<Rightarrow> index_array option \<Rightarrow> string \<Rightarrow> error + UpBlock" where
  "UpBlock_init cl in_ch out_ch cni neigh up_neigh dn_idx um =
     bindE (if um = ''interp'' then Inr (IcoUpSample in_ch out_ch up_neigh)
            else if um = ''zeropad'' then Inr (IcoFixIndexUpSample in_ch out_ch up_neigh)
            else if um = ''maxpad'' then Inr (IcoMaxIndexUpSample in_ch out_ch neigh dn_idx)
            else if um = ''transpose'' then Inr (IcoUpConv in_ch out_ch neigh dn_idx)
            else Inl (ValueError ''Invalid upsampling method.''))
       (\<lambda>u. Inr \<lparr>ub_up_mode = um, ub_up = u,
                  double_conv = double_conv_layers cl in_ch out_ch cni\<rparr>)"

definition UpBlock_forward ::
  "engine \<Rightarrow> UpBlock \<Rightarrow> tensor \<Rightarrow> tensor \<Rightarrow> tensor option \<Rightarrow> error + tensor" where
  "UpBlock_forward E b x1 x2 max_pool_indices =
     bindE (if ub_up_mode b = ''maxpad'' then run_unpool E (ub_up b) x1 max_pool_indices
            else run_layer E (ub_up b) x1)
       (\<lambda>x1'. bindE (torch_cat1 x1' x2) (Sequential E (double_conv b)))"

section \<open>The spherical U-Net\<close>

record SphericalUNet =
  in_order :: int
  depth :: int
  conv_mode :: string
  in_vertices :: nat
  in_channels :: nat
  out_channels :: nat
  up_mode :: string
  ico :: "int \<rightharpoonup> Ico"
  filts :: "nat list"
  sconv :: conv_layer
  down :: "int \<rightharpoonup> DownBlock"
  up :: "int \<rightharpoonup> UpBlock"
  fc :: linear

text \<open>
  One turn of the loop that builds the encoder (lines 176 to 199). The arguments of the
  debug message are evaluated whatever the log level, so their look-ups can fail too.
\<close>

definition down_block_at ::
  "(int \<rightharpoonup> Ico) \<Rightarrow> nat list \<Rightarrow> conv_layer \<Rightarrow> int \<Rightarrow> string \<Rightarrow> int \<Rightarrow> error + DownBlock" where
  "down_block_at hier fs cl n um idx =
     bindE (list_get fs idx) (\<lambda>in_ch.
     bindE (list_get fs (idx + 1)) (\<lambda>out_ch.
     bindE (dict_get hier (n - idx)) (\<lambda>cur.
     bindE (if idx = 0 then Inr (None, None)
            else bindE (dict_get hier (n - idx + 1)) (\<lambda>finer.
                   (case down_indices finer of
                      None \<Rightarrow> Inl (AttributeError ''shape'')
                    | Some d \<Rightarrow> Inr (Some (neighbor_indices finer), Some d)))) (\<lambda>tables.
     Inr (DownBlock_init cl in_ch out_ch (conv_neighbor_indices cur) (fst tables) (snd tables)
            (if um = ''maxpad'' then ''max'' else ''mean'') (idx = 0))))))"

fun down_blocks_loop ::
  "(int \<rightharpoonup> Ico) \<Rightarrow> nat list \<Rightarrow> conv_layer \<Rightarrow> int \<Rightarrow> string \<Rightarrow> int list
     \<Rightarrow> (int \<rightharpoonup> DownBlock) \<Rightarrow> event list \<Rightarrow> (error + (int \<rightharpoonup> DownBlock)) \<times> event list" where
  "down_blocks_loop hier fs cl n um [] dn ev = (Inr dn, ev)"
| "down_blocks_loop hier fs cl n um (idx # idxs) dn ev =
     (case down_block_at hier fs cl n um idx of
        Inl e \<Rightarrow> (Inl e, ev)
      | Inr b \<Rightarrow> down_blocks_loop hier fs cl n um idxs (dn(idx + 1 \<mapsto> b))
                  (ev @ [BuildDownBlock (idx + 1)]))"

text \<open>
  One turn of the loop that builds the decoder (lines 202 to 218); \<open>ord\<close> is the
  variable \<^verbatim>\<open>order\<close>, which the loop inherits from the last turn of the encoder
  loop and increments.
\<close>

definition up_block_at ::
  "(int \<rightharpoonup> Ico) \<Rightarrow> nat list \<Rightarrow> conv_layer \<Rightarrow> string \<Rightarrow> int \<Rightarrow> int \<Rightarrow> error + UpBlock" where
  "up_block_at hier fs cl um ord idx =
     bindE (list_get fs (idx + 1)) (\<lambda>in_ch.
     bindE (list_get fs idx) (\<lambda>out_ch.
     bindE (dict_get hier (ord + 1)) (\<lambda>finer.
     bindE (dict_get hier ord) (\<lambda>cur.
     bindE (case up_indices cur of
              None \<Rightarrow> Inl (AttributeError ''shape'')
            | Some u \<Rightarrow> Inr u) (\<lambda>u.
     UpBlock_init cl in_ch out_ch (conv_neighbor_indices finer) (neighbor_indices finer)
       (up_indices cur) (down_indices finer) um)))))"

fun up_blocks_loop ::
  "(int \<rightharpoonup> Ico) \<Rightarrow> nat list \<Rightarrow> conv_layer \<Rightarrow> string \<Rightarrow> int list \<Rightarrow> int \<Rightarrow> int
     \<Rightarrow> (int \<rightharpoonup> UpBlock) \<Rightarrow> event list \<Rightarrow> (error + (int \<rightharpoonup> UpBlock)) \<times> event list" where
  "up_blocks_loop hier fs cl um [] ord cnt ups ev = (Inr ups, ev)"
| "up_blocks_loop hier fs cl um (idx # idxs) ord cnt ups ev =
     (case up_block_at hier fs cl um ord idx of
        Inl e \<Rightarrow> (Inl e, ev)
      | Inr b \<Rightarrow> up_blocks_loop hier fs cl um idxs (ord + 1) (cnt + 1) (ups(cnt \<mapsto> b))
                  (ev @ [BuildUpBlock cnt]))"

text \<open>Lines 168 and 169: the filter widths.\<close>

definition make_filts :: "nat \<Rightarrow> nat \<Rightarrow> int \<Rightarrow> nat list" where
  "make_filts in_ch start d = in_ch # map (\<lambda>idx. start * 2 ^ nat idx) (range2 0 d)"

text \<open>
  \<^verbatim>\<open>SphericalUNet.__init__\<close>. \<open>w\<close> and \<open>b\<close> are the weight and the bias that
  \<^verbatim>\<open>nn.Linear\<close> draws for the final projection. The result pairs the network (or
  the exception) with the calls made up to that point.
\<close>

definition SphericalUNet_init ::
  "geometry \<Rightarrow> (nat \<Rightarrow> nat \<Rightarrow> real) \<Rightarrow> (nat \<Rightarrow> real) \<Rightarrow> int \<Rightarrow> nat \<Rightarrow> nat \<Rightarrow> int \<Rightarrow> nat
     \<Rightarrow> string \<Rightarrow> string \<Rightarrow> (error + SphericalUNet) \<times> event list" where
  "SphericalUNet_init G w b n in_ch out_ch d start cm um =
     (case build_hierarchy G n cm of
        (Inl e, ev) \<Rightarrow> (Inl e, ev)
      | (Inr hier, ev0) \<Rightarrow>
     (let fs = make_filts in_ch start d;
          cl = (if cm = ''repa'' then IcoRePaConv else IcoDiNeConv)
      in
     (case down_blocks_loop hier fs cl n um (range2 0 d) Map.empty ev0 of
        (Inl e, ev) \<Rightarrow> (Inl e, ev)
      | (Inr dn, ev1) \<Rightarrow>
     (case up_blocks_loop hier fs cl um (range_down (d - 1) 0) (n - (d - 1)) 1 Map.empty ev1 of
        (Inl e, ev) \<Rightarrow> (Inl e, ev)
      | (Inr ups, ev2) \<Rightarrow>
     (case list_get fs 1 of
        Inl e \<Rightarrow> (Inl e, ev2)
      | Inr f1 \<Rightarrow>
          (Inr \<lparr>in_order = n, depth = d, conv_mode = cm,
                in_vertices = number_of_ico_vertices G n,
                in_channels = in_ch, out_channels = out_ch, up_mode = um,
                ico = hier, filts = fs, sconv = cl, down = dn, up = ups,
                fc = \<lparr>in_features = f1, out_features = out_ch, weight = w, bias = b\<rparr>\<rparr>,
           ev2 @ [BuildLinear]))))))"

text \<open>The steps of a forward pass, in order.\<close>

datatype step = RunDownBlock int | RunUpBlock int | RunFC

text \<open>Lines 234 to 239: the encoder, collecting the outputs and the pooling indices.\<close>

fun encoder_loop ::
  "engine \<Rightarrow> (int \<rightharpoonup> DownBlock) \<Rightarrow> int list \<Rightarrow> tensor \<Rightarrow> tensor list \<Rightarrow> tensor option list
     \<Rightarrow> step list
     \<Rightarrow> (error + tensor \<times> tensor list \<times> tensor option list) \<times> step list" where
  "encoder_loop E dn [] x encoder_outs pooling_outs tr = (Inr (x, encoder_outs, pooling_outs), tr)"
| "encoder_loop E dn (idx # idxs) x encoder_outs pooling_outs tr =
     (case dn idx of
        None \<Rightarrow> (Inl (AttributeError ''down''), tr)
      | Some blk \<Rightarrow>
     (case DownBlock_forward E blk x of
        Inl e \<Rightarrow> (Inl e, tr @ [RunDownBlock idx])
      | Inr r \<Rightarrow>
          encoder_loop E dn idxs (fst r) (encoder_outs @ [fst r]) (pooling_outs @ [snd r])
            (tr @ [RunDownBlock idx])))"

text \<open>Lines 242 to 247: the decoder, on the reversed lists.\<close>

fun decoder_loop ::
  "engine \<Rightarrow> (int \<rightharpoonup> UpBlock) \<Rightarrow> int list \<Rightarrow> tensor \<Rightarrow> tensor list \<Rightarrow> tensor option list
     \<Rightarrow> step list \<Rightarrow> (error + tensor) \<times> step list" where
  "decoder_loop E ups [] x encoder_outs pooling_outs tr = (Inr x, tr)"
| "decoder_loop E ups (idx # idxs) x encoder_outs pooling_outs tr =
     (case ups idx of
        None \<Rightarrow> (Inl (AttributeError ''up''), tr)
      | Some blk \<Rightarrow>
     (case list_get encoder_outs idx of
        Inl e \<Rightarrow> (Inl e, tr)
      | Inr x_up \<Rightarrow>
     (case list_get pooling_outs (idx - 1) of
        Inl e \<Rightarrow> (Inl e, tr)
      | Inr max_pool_indices \<Rightarrow>
     (case UpBlock_forward E blk x x_up max_pool_indices of
        Inl e \<Rightarrow> (Inl e, tr @ [RunUpBlock idx])
      | Inr y \<Rightarrow> decoder_loop E ups idxs y encoder_outs pooling_outs (tr @ [RunUpBlock idx])))))"

text \<open>
  Lines 250 to 257: the final projection. The vertex dimension is made the second one,
  folded into the batch dimension for the linear layer, and restored.
\<close>

definition fc_stage :: "SphericalUNet \<Rightarrow> tensor \<Rightarrow> error + tensor" where
  "fc_stage m x =
     bindE (len_tensor x) (\<lambda>n_samples.
     bindE (permute_021 x) (\<lambda>x1.
     bindE (list_get (filts m) 1) (\<lambda>f1.
     bindE (reshape x1 [n_samples * in_vertices m, f1]) (\<lambda>x2.
     bindE (Linear_forward (fc m) x2) (\<lambda>x3.
     bindE (view x3 [n_samples, in_vertices m, out_channels m]) permute_021)))))"

text \<open>Lines 232 to 257 of \<^verbatim>\<open>SphericalUNet.forward\<close>: all that follows the check.\<close>

definition run_blocks :: "engine \<Rightarrow> SphericalUNet \<Rightarrow> tensor \<Rightarrow> (error + tensor) \<times> step list" where
  "run_blocks E m x =
     (case encoder_loop E (down m) (range2 1 (depth m + 1)) x [] [] [] of
        (Inl e, tr) \<Rightarrow> (Inl e, tr)
      | (Inr r, tr1) \<Rightarrow>
     (case decoder_loop E (up m) (range2 1 (depth m)) (fst r) (rev (fst (snd r)))
             (rev (snd (snd r))) tr1 of
        (Inl e, tr) \<Rightarrow> (Inl e, tr)
      | (Inr y, tr2) \<Rightarrow> (fc_stage m y, tr2 @ [RunFC])))"

text \<open>
  \<^verbatim>\<open>SphericalUNet.forward\<close>: the check of the vertex dimension (lines 229 to 231),
  then the blocks. The result pairs the output (or the exception) with the steps run.
\<close>

definition forward :: "engine \<Rightarrow> SphericalUNet \<Rightarrow> tensor \<Rightarrow> (error + tensor) \<times> step list" where
  "forward E m x =
     (case size_dim x 2 of
        Inl e \<Rightarrow> (Inl e, [])
      | Inr v \<Rightarrow>
          if v \<noteq> in_vertices m then
            (Inl (RuntimeError ''Input data must be projected on an {0} order icosahedron.''), [])
          else run_blocks E m x)"

section \<open>Augmentations\<close>

subsection \<open>Arrays and random numbers\<close>

text \<open>
  A numpy array handed to \<^verbatim>\<open>run\<close> is an object that the caller keeps a reference
  to: arrays live in a store, and an assignment through an index writes to the store.
\<close>

type_synonym ref = nat
type_synonym heap = "ref \<Rightarrow> real list"

text \<open>
  \<^verbatim>\<open>np.random.randint(low, high)\<close> draws from \<open>low, \<dots>, high - 1\<close>. The generator
  is a stream of natural numbers; a raw draw \<open>u\<close> is reduced to the range, so that every
  value of the range is the outcome of some draw and no outcome lies outside.
\<close>

definition np_randint :: "int \<Rightarrow> int \<Rightarrow> nat \<Rightarrow> error + int" where
  "np_randint low high u =
     (if high \<le> low then Inl (ValueError ''low >= high'')
      else Inr (low + int u mod (high - low)))"

text \<open>
  \<^verbatim>\<open>np.random.normal(0, scale, n)\<close>: \<open>n\<close> standard normal draws \<open>z 0, z 1, \<dots>\<close>,
  each scaled.
\<close>

definition np_random_normal :: "real \<Rightarrow> nat \<Rightarrow> (nat \<Rightarrow> real) \<Rightarrow> error + real list" where
  "np_random_normal scale n z =
     (if scale < 0 then Inl (ValueError ''scale < 0'')
      else Inr (map (\<lambda>i. 0 + scale * z i) [0..<n]))"

text \<open>\<^verbatim>\<open>data[indices] = value\<close> with a list of indices.\<close>

definition set_items :: "real list \<Rightarrow> nat list \<Rightarrow> real \<Rightarrow> error + real list" where
  "set_items xs idxs v =
     (if list_all (\<lambda>i. i < length xs) idxs then Inr (fold (\<lambda>i ys. ys[i := v]) idxs xs)
      else Inl IndexError)"

subsection \<open>SurfCutOut\<close>

text \<open>
  Modelled from the spec: \<^verbatim>\<open>find_neighbors\<close> of \<^verbatim>\<open>surfify.utils\<close> is not part of
  the sources at hand. The specification gives
  \<^verbatim>\<open>find_neighbors(vertex, ring_count, neighbor_table) -> flat index list\<close>, the
  vertices within that many rings of the vertex; a neighbour table maps a vertex to its
  direct neighbours.
\<close>

definition neighbours_of :: "(nat \<times> nat list) list \<Rightarrow> nat \<Rightarrow> nat list" where
  "neighbours_of tbl v = (case map_of tbl v of None \<Rightarrow> [] | Some ns \<Rightarrow> ns)"

fun within_rings :: "(nat \<times> nat list) list \<Rightarrow> nat \<Rightarrow> nat \<Rightarrow> nat list" where
  "within_rings tbl 0 v = [v]"
| "within_rings tbl (Suc r) v =
     remdups (v # concat (map (within_rings tbl r) (neighbours_of tbl v)))"

definition find_neighbors :: "nat \<Rightarrow> int \<Rightarrow> (nat \<times> nat list) list \<Rightarrow> nat list" where
  "find_neighbors start_node ring_count tbl = within_rings tbl (nat ring_count) start_node"

text \<open>
  The fields of a \<^verbatim>\<open>SurfCutOut\<close>. \<^verbatim>\<open>vertices\<close>, \<^verbatim>\<open>triangles\<close>,
  \<^verbatim>\<open>neighs\<close> and \<^verbatim>\<open>sigma\<close> carry a prefix, since other classes have fields of
  these names.
\<close>

record SurfCutOut =
  co_vertices :: vertex_array
  co_triangles :: triangle_array
  co_neighs :: "(nat \<times> nat list) list"
  patch_size :: int
  n_patches :: int
  co_sigma :: int
  replacement_value :: real

definition SurfCutOut_init ::
  "geometry \<Rightarrow> vertex_array \<Rightarrow> triangle_array \<Rightarrow> (nat \<times> nat list) list option \<Rightarrow> int \<Rightarrow> int
     \<Rightarrow> int \<Rightarrow> real \<Rightarrow> SurfCutOut" where
  "SurfCutOut_init G vs ts given ps np sg rv =
     \<lparr>co_vertices = vs, co_triangles = ts,
      co_neighs = (case given of None \<Rightarrow> neighbors G vs ts 1 | Some tbl \<Rightarrow> tbl),
      patch_size = ps, n_patches = np, co_sigma = sg, replacement_value = rv\<rparr>"

text \<open>
  The two draws of turn \<open>idx\<close> of the loop of \<^verbatim>\<open>SurfCutOut.run\<close>; \<open>ent\<close> is the
  stream of raw draws of the generator.
\<close>

definition random_node :: "SurfCutOut \<Rightarrow> (nat \<Rightarrow> nat) \<Rightarrow> nat \<Rightarrow> error + int" where
  "random_node self ent idx = np_randint 0 (int (length (co_vertices self))) (ent (2 * idx))"

definition random_size :: "SurfCutOut \<Rightarrow> (nat \<Rightarrow> nat) \<Rightarrow> nat \<Rightarrow> error + int" where
  "random_size self ent idx =
     np_randint (patch_size self - co_sigma self) (patch_size self + co_sigma self + 1)
       (ent (2 * idx + 1))"

fun cutout_loop ::
  "SurfCutOut \<Rightarrow> (nat \<Rightarrow> nat) \<Rightarrow> nat list \<Rightarrow> heap \<Rightarrow> ref \<Rightarrow> (error + ref) \<times> heap" where
  "cutout_loop self ent [] h r = (Inr r, h)"
| "cutout_loop self ent (idx # idxs) h r =
     (case random_node self ent idx of Inl e \<Rightarrow> (Inl e, h) | Inr node \<Rightarrow>
     (case random_size self ent idx of Inl e \<Rightarrow> (Inl e, h) | Inr rings \<Rightarrow>
     (case set_items (h r) (find_neighbors (nat node) rings (co_neighs self))
             (replacement_value self) of
        Inl e \<Rightarrow> (Inl e, h)
      | Inr arr \<Rightarrow> cutout_loop self ent idxs (h(r := arr)) r)))"

text \<open>
  \<^verbatim>\<open>SurfCutOut.run(data)\<close>: \<open>r\<close> is the reference the caller passes, the result the
  reference returned and the store after the call.
\<close>

definition SurfCutOut_run ::
  "SurfCutOut \<Rightarrow> (nat \<Rightarrow> nat) \<Rightarrow> heap \<Rightarrow> ref \<Rightarrow> (error + ref) \<times> heap" where
  "SurfCutOut_run self ent h r = cutout_loop self ent [0..<nat (n_patches self)] h r"

subsection \<open>SurfNoise\<close>

text \<open>\<^verbatim>\<open>SurfNoise.run(data)\<close>: \<^verbatim>\<open>data += noise\<close> adds in place.\<close>

definition SurfNoise_run ::
  "real \<Rightarrow> (nat \<Rightarrow> real) \<Rightarrow> heap \<Rightarrow> ref \<Rightarrow> (error + ref) \<times> heap" where
  "SurfNoise_run sigma z h r =
     (case np_random_normal sigma (length (h r)) z of
        Inl e \<Rightarrow> (Inl e, h)
      | Inr noise \<Rightarrow> (Inr r, h(r := map2 (+) (h r) noise)))"

subsection \<open>SurfBlur\<close>

text \<open>\<^verbatim>\<open>int(x)\<close> on a float truncates towards zero.\<close>

definition py_int :: "real \<Rightarrow> int" where
  "py_int x = (if 0 \<le> x then \<lfloor>x\<rfloor> else \<lceil>x\<rceil>)"

text \<open>The local variable \<^verbatim>\<open>depth\<close> of \<^verbatim>\<open>SurfBlur.__init__\<close> (line 158).\<close>

definition blur_depth :: "real \<Rightarrow> int" where
  "blur_depth sigma = max 1 (py_int (2 * sigma + 0.5))"

text \<open>Lines 165 and 166: the ring of every slot of a row of the neighbour table.\<close>

definition ring_positions :: "int \<Rightarrow> int list" where
  "ring_positions d =
     0 # concat (map (\<lambda>ring. replicate (nat (6 * ring)) ring) (range2 1 (d + 1)))"

record SurfBlur =
  bl_vertices :: vertex_array
  bl_triangles :: triangle_array
  bl_sigma :: real
  bl_neighs :: index_array
  positions :: "int list"
  conv :: layer

definition SurfBlur_init ::
  "geometry \<Rightarrow> vertex_array \<Rightarrow> triangle_array \<Rightarrow> real \<Rightarrow> (nat \<times> nat list) list option
     \<Rightarrow> error + SurfBlur" where
  "SurfBlur_init G vs ts sigma given =
     (let d = blur_depth sigma;
          tbl = map snd (case given of None \<Rightarrow> neighbors G vs ts d | Some t \<Rightarrow> t);
          pos = ring_positions d
      in (case tbl of
            [] \<Rightarrow> Inl IndexError
          | row # _ \<Rightarrow>
              if length pos = length row then
                Inr \<lparr>bl_vertices = vs, bl_triangles = ts, bl_sigma = sigma, bl_neighs = tbl,
                     positions = pos, conv = ConvLayer IcoDiNeConv 1 1 (RingNeighs tbl)\<rparr>
              else Inl AssertionError))"

text \<open>
  The values of a float array: a real number (rounding is not modelled), an infinity or
  not-a-number. Division by zero does not raise in numpy: it yields an infinity, and
  \<open>0 / 0\<close> yields not-a-number. The sign of a zero is not modelled.
\<close>

datatype npfloat = Fin real | PInf | NInf | NaN

fun np_div :: "npfloat \<Rightarrow> npfloat \<Rightarrow> npfloat" where
  "np_div (Fin a) (Fin b) =
     (if b = 0 then (if a = 0 then NaN else if 0 < a then PInf else NInf) else Fin (a / b))"
| "np_div (Fin a) PInf = Fin 0"
| "np_div (Fin a) NInf = Fin 0"
| "np_div PInf (Fin b) = (if 0 \<le> b then PInf else NInf)"
| "np_div NInf (Fin b) = (if 0 \<le> b then NInf else PInf)"
| "np_div _ _ = NaN"

fun np_square :: "npfloat \<Rightarrow> npfloat" where
  "np_square (Fin a) = Fin (a ^ 2)"
| "np_square PInf = PInf"
| "np_square NInf = PInf"
| "np_square NaN = NaN"

fun np_scale :: "real \<Rightarrow> npfloat \<Rightarrow> npfloat" where
  "np_scale c (Fin a) = Fin (c * a)"
| "np_scale c PInf = (if 0 < c then PInf else if c < 0 then NInf else NaN)"
| "np_scale c NInf = (if 0 < c then NInf else if c < 0 then PInf else NaN)"
| "np_scale c NaN = NaN"

fun np_exp :: "npfloat \<Rightarrow> npfloat" where
  "np_exp (Fin a) = Fin (exp a)"
| "np_exp PInf = PInf"
| "np_exp NInf = Fin 0"
| "np_exp NaN = NaN"

fun np_add :: "npfloat \<Rightarrow> npfloat \<Rightarrow> npfloat" where
  "np_add (Fin a) (Fin b) = Fin (a + b)"
| "np_add (Fin a) PInf = PInf"
| "np_add (Fin a) NInf = NInf"
| "np_add PInf (Fin b) = PInf"
| "np_add NInf (Fin b) = NInf"
| "np_add PInf PInf = PInf"
| "np_add NInf NInf = NInf"
| "np_add _ _ = NaN"

definition np_sum :: "npfloat list \<Rightarrow> npfloat" where
  "np_sum xs = foldl np_add (Fin 0) xs"

text \<open>Line 183: \<^verbatim>\<open>np.exp(-0.5 * (self.positions / self.sigma) ** 2)\<close>.\<close>

definition gaussian_kernel :: "SurfBlur \<Rightarrow> npfloat list" where
  "gaussian_kernel self =
     map (\<lambda>p. np_exp (np_scale (- 0.5) (np_square (np_div (Fin (of_int p)) (Fin (bl_sigma self))))))
         (positions self)"

text \<open>Line 184: the kernel divided by its sum, the weights given to the convolution.\<close>

definition normalized_kernel :: "SurfBlur \<Rightarrow> npfloat list" where
  "normalized_kernel self =
     map (\<lambda>w. np_div w (np_sum (gaussian_kernel self))) (gaussian_kernel self)"

section \<open>Contracts of the external collaborators\<close>

text \<open>
  Modelled from the spec: the sizes of what the geometric primitives of
  \<^verbatim>\<open>surfify.utils\<close> return (they are not part of the sources at hand). The
  specification gives one row of a neighbour table per vertex, one row of the
  downsampling indices per vertex of the coarser order, one row of the upsampling
  indices per newly introduced vertex of the finer order, and more vertices at a higher
  order.
\<close>

definition geometry_contract :: "geometry \<Rightarrow> bool" where
  "geometry_contract G \<longleftrightarrow>
     (\<forall>k. length (fst (icosahedron G k)) = number_of_ico_vertices G k) \<and>
     (\<forall>vs ts d. length (neighbors G vs ts d) = length vs) \<and>
     (\<forall>vs ts. length (fst (neighbors_rec G vs ts)) = length vs) \<and>
     (\<forall>fine coarse. length (downsample G fine coarse) = length coarse) \<and>
     (\<forall>coarse fine ts. length (interpolate G coarse fine ts) = length fine - length coarse) \<and>
     (\<forall>k. number_of_ico_vertices G k \<le> number_of_ico_vertices G (k + 1))"

definition table_rows :: "conv_neighs \<Rightarrow> nat" where
  "table_rows t = (case t of RingNeighs a \<Rightarrow> length a | RepaNeighs a w \<Rightarrow> length a)"

text \<open>
  Modelled from the spec: the shapes of what the layers of \<^verbatim>\<open>surfify.nn\<close> and of
  the tensor engine return (they are not part of the sources at hand). The specification
  gives each layer fixed input and output channel counts and an index table, on a batch
  \<open>\<times>\<close> channels \<open>\<times>\<close> vertices tensor: a convolution, a normalisation and an
  activation keep the vertices; a pooling goes to the coarser order and, in mode
  \<^verbatim>\<open>"max"\<close>, returns the indices of the maxima; an upsampling goes to the finer
  order, and the one of \<^verbatim>\<open>"maxpad"\<close> needs those indices.
\<close>

definition engine_contract :: "engine \<Rightarrow> bool" where
  "engine_contract E \<longleftrightarrow>
     (\<forall>cl i oc t x n. shape x = [n, i, table_rows t] \<longrightarrow>
        (\<exists>y. run_layer E (ConvLayer cl i oc t) x = Inr y \<and> shape y = [n, oc, table_rows t])) \<and>
     (\<forall>c x n v. shape x = [n, c, v] \<longrightarrow>
        (\<exists>y. run_layer E (BatchNorm1d c) x = Inr y \<and> shape y = [n, c, v])) \<and>
     (\<forall>x. \<exists>y. run_layer E LeakyReLU x = Inr y \<and> shape y = shape x) \<and>
     (\<forall>nb dn pm x n c. shape x = [n, c, length nb] \<longrightarrow>
        (\<exists>y mpi. run_pool E (IcoPool (Some nb) (Some dn) pm) x = Inr (y, mpi)
           \<and> shape y = [n, c, length dn] \<and> (pm = ''max'' \<longrightarrow> mpi \<noteq> None))) \<and>
     (\<forall>i oc u x n v. shape x = [n, i, v] \<longrightarrow>
        (\<exists>y. run_layer E (IcoUpSample i oc (Some u)) x = Inr y
           \<and> shape y = [n, oc, v + length u])) \<and>
     (\<forall>i oc u x n v. shape x = [n, i, v] \<longrightarrow>
        (\<exists>y. run_layer E (IcoFixIndexUpSample i oc (Some u)) x = Inr y
           \<and> shape y = [n, oc, v + length u])) \<and>
     (\<forall>i oc nb dn x p n. shape x = [n, i, length dn] \<longrightarrow>
        (\<exists>y. run_unpool E (IcoMaxIndexUpSample i oc nb (Some dn)) x (Some p) = Inr y
           \<and> shape y = [n, oc, length nb])) \<and>
     (\<forall>i oc nb dn x n. shape x = [n, i, length dn] \<longrightarrow>
        (\<exists>y. run_layer E (IcoUpConv i oc nb (Some dn)) x = Inr y
           \<and> shape y = [n, oc, length nb]))"

section \<open>What the construction builds, in closed form\<close>

definition valid_conv_mode :: "string \<Rightarrow> bool" where
  "valid_conv_mode cm \<longleftrightarrow> cm = ''1ring'' \<or> cm = ''2ring'' \<or> cm = ''repa''"

definition valid_up_mode :: "string \<Rightarrow> bool" where
  "valid_up_mode um \<longleftrightarrow>
     um = ''interp'' \<or> um = ''zeropad'' \<or> um = ''maxpad'' \<or> um = ''transpose''"

definition ico_vertices :: "geometry \<Rightarrow> int \<Rightarrow> vertex_array" where
  "ico_vertices G k = fst (icosahedron G k)"

definition ico_triangles :: "geometry \<Rightarrow> int \<Rightarrow> triangle_array" where
  "ico_triangles G k = snd (icosahedron G k)"

definition ring1 :: "geometry \<Rightarrow> int \<Rightarrow> index_array" where
  "ring1 G k = map snd (neighbors G (ico_vertices G k) (ico_triangles G k) 1)"

definition conv_table :: "geometry \<Rightarrow> string \<Rightarrow> int \<Rightarrow> conv_neighs" where
  "conv_table G cm k =
     (if cm = ''1ring'' then RingNeighs (ring1 G k)
      else if cm = ''2ring'' then
        RingNeighs (map snd (neighbors G (ico_vertices G k) (ico_triangles G k) 2))
      else RepaNeighs (fst (neighbors_rec G (ico_vertices G k) (ico_triangles G k)))
                      (snd (neighbors_rec G (ico_vertices G k) (ico_triangles G k))))"

definition down_table :: "geometry \<Rightarrow> int \<Rightarrow> index_array" where
  "down_table G k = downsample G (ico_vertices G k) (ico_vertices G (k - 1))"

definition up_table :: "geometry \<Rightarrow> int \<Rightarrow> index_array" where
  "up_table G k =
     map snd (interpolate G (ico_vertices G k) (ico_vertices G (k + 1)) (ico_triangles G (k + 1)))"

text \<open>The record of order \<open>k\<close> after the first loop, and the hierarchy after all three.\<close>

definition base_ico :: "geometry \<Rightarrow> string \<Rightarrow> int \<Rightarrow> Ico" where
  "base_ico G cm k =
     \<lparr>order = k, vertices = ico_vertices G k, triangles = ico_triangles G k,
      neighbor_indices = ring1 G k, down_indices = None, up_indices = None,
      conv_neighbor_indices = conv_table G cm k\<rparr>"

definition final_ico :: "geometry \<Rightarrow> string \<Rightarrow> int \<Rightarrow> int \<rightharpoonup> Ico" where
  "final_ico G cm n k =
     (if 1 \<le> k \<and> k \<le> n then
        Some ((base_ico G cm k)
          \<lparr>down_indices := (if 2 \<le> k then Some (down_table G k) else None),
           up_indices := (if k \<le> n - 1 then Some (up_table G k) else None)\<rparr>)
      else None)"

definition ico_events :: "string \<Rightarrow> int \<Rightarrow> event list" where
  "ico_events cm k =
     [CallIcosahedron k, CallNeighbors k 1]
     @ (if cm = ''1ring'' then [] else if cm = ''2ring'' then [CallNeighbors k 2]
        else [CallNeighborsRec k])"

definition hierarchy_events :: "string \<Rightarrow> int \<Rightarrow> event list" where
  "hierarchy_events cm n =
     concat (map (ico_events cm) [1..n]) @ map CallDownsample (rev [2..n])
     @ map CallInterpolate [1..n - 1]"

text \<open>The blocks and the network that a successful construction returns.\<close>

definition conv_class :: "string \<Rightarrow> conv_layer" where
  "conv_class cm = (if cm = ''repa'' then IcoRePaConv else IcoDiNeConv)"

definition pool_mode_of :: "string \<Rightarrow> string" where
  "pool_mode_of um = (if um = ''maxpad'' then ''max'' else ''mean'')"

definition expected_down :: "geometry \<Rightarrow> string \<Rightarrow> string \<Rightarrow> nat list \<Rightarrow> int \<Rightarrow> int \<Rightarrow> DownBlock" where
  "expected_down G cm um fs n j =
     DownBlock_init (conv_class cm) (fs ! nat (j - 1)) (fs ! nat j) (conv_table G cm (n - j + 1))
       (if j = 1 then None else Some (ring1 G (n - j + 2)))
       (if j = 1 then None else Some (down_table G (n - j + 2)))
       (pool_mode_of um) (j = 1)"

definition expected_up_layer ::
  "string \<Rightarrow> nat \<Rightarrow> nat \<Rightarrow> index_array \<Rightarrow> index_array \<Rightarrow> index_array \<Rightarrow> layer" where
  "expected_up_layer um i oc nb u dn =
     (if um = ''interp'' then IcoUpSample i oc (Some u)
      else if um = ''zeropad'' then IcoFixIndexUpSample i oc (Some u)
      else if um = ''maxpad'' then IcoMaxIndexUpSample i oc nb (Some dn)
      else IcoUpConv i oc nb (Some dn))"

definition expected_up ::
  "geometry \<Rightarrow> string \<Rightarrow> string \<Rightarrow> nat list \<Rightarrow> int \<Rightarrow> int \<Rightarrow> int \<Rightarrow> UpBlock" where
  "expected_up G cm um fs n d c =
     \<lparr>ub_up_mode = um,
      ub_up = expected_up_layer um (fs ! nat (d - c + 1)) (fs ! nat (d - c))
                (ring1 G (n - d + c + 1)) (up_table G (n - d + c)) (down_table G (n - d + c + 1)),
      double_conv = double_conv_layers (conv_class cm) (fs ! nat (d - c + 1)) (fs ! nat (d - c))
                      (conv_table G cm (n - d + c + 1))\<rparr>"

definition expected_unet ::
  "geometry \<Rightarrow> (nat \<Rightarrow> nat \<Rightarrow> real) \<Rightarrow> (nat \<Rightarrow> real) \<Rightarrow> int \<Rightarrow> nat \<Rightarrow> nat \<Rightarrow> int \<Rightarrow> nat
     \<Rightarrow> string \<Rightarrow> string \<Rightarrow> SphericalUNet" where
  "expected_unet G w b n in_ch out_ch d start cm um =
     \<lparr>in_order = n, depth = d, conv_mode = cm,
      in_vertices = number_of_ico_vertices G n,
      in_channels = in_ch, out_channels = out_ch, up_mode = um,
      ico = final_ico G cm n, filts = make_filts in_ch start d, sconv = conv_class cm,
      down = (\<lambda>j. if 1 \<le> j \<and> j \<le> d
                  then Some (expected_down G cm um (make_filts in_ch start d) n j) else None),
      up = (\<lambda>c. if 1 \<le> c \<and> c \<le> d - 1
                then Some (expected_up G cm um (make_filts in_ch start d) n d c) else None),
      fc = \<lparr>in_features = make_filts in_ch start d ! 1, out_features = out_ch,
            weight = w, bias = b\<rparr>\<rparr>"

definition init_events :: "string \<Rightarrow> int \<Rightarrow> int \<Rightarrow> event list" where
  "init_events cm n d =
     hierarchy_events cm n @ map BuildDownBlock [1..d] @ map BuildUpBlock [1..d - 1]
     @ [BuildLinear]"

section \<open>Example inputs\<close>

text \<open>
  A geometry whose tables have the sizes of the icosahedron of order \<open>k\<close>,
  \<open>10 \<cdot> 4\<^sup>k + 2\<close> vertices, and rows of \<open>1 + 3 d (d + 1)\<close> slots at depth \<open>d\<close>;
  an engine whose layers return zero tensors of the shapes of their contract.
\<close>

definition example_geometry :: geometry where
  "example_geometry =
     \<lparr>icosahedron = (\<lambda>k. (replicate (10 * 4 ^ nat k + 2) [0, 0, 0], [])),
      neighbors = (\<lambda>vs ts d. map (\<lambda>i. (i, replicate (1 + 3 * nat d * (nat d + 1)) i))
                               [0..<length vs]),
      neighbors_rec = (\<lambda>vs ts. (replicate (length vs) [], [])),
      downsample = (\<lambda>fine coarse. replicate (length coarse) []),
      interpolate = (\<lambda>coarse fine ts. map (\<lambda>i. (i, [])) [length coarse..<length fine]),
      number_of_ico_vertices = (\<lambda>k. 10 * 4 ^ nat k + 2)\<rparr>"

definition zeros :: "nat list \<Rightarrow> tensor" where
  "zeros s = \<lparr>shape = s, data = replicate (prod_list s) 0\<rparr>"

fun example_run_layer :: "layer \<Rightarrow> tensor \<Rightarrow> error + tensor" where
  "example_run_layer (ConvLayer cl i oc t) x =
     (if length (shape x) = 3 \<and> shape x ! 1 = i \<and> shape x ! 2 = table_rows t
      then Inr (zeros [shape x ! 0, oc, shape x ! 2]) else Inl (RuntimeError ''conv''))"
| "example_run_layer (BatchNorm1d c) x = Inr x"
| "example_run_layer LeakyReLU x = Inr x"
| "example_run_layer (IcoUpSample i oc (Some u)) x =
     (if length (shape x) = 3 \<and> shape x ! 1 = i
      then Inr (zeros [shape x ! 0, oc, shape x ! 2 + length u]) else Inl (RuntimeError ''up''))"
| "example_run_layer (IcoFixIndexUpSample i oc (Some u)) x =
     (if length (shape x) = 3 \<and> shape x ! 1 = i
      then Inr (zeros [shape x ! 0, oc, shape x ! 2 + length u]) else Inl (RuntimeError ''up''))"
| "example_run_layer (IcoUpConv i oc nb (Some dn)) x =
     (if length (shape x) = 3 \<and> shape x ! 1 = i \<and> shape x ! 2 = length dn
      then Inr (zeros [shape x ! 0, oc, length nb]) else Inl (RuntimeError ''up''))"
| "example_run_layer l x = Inl (RuntimeError ''layer'')"

fun example_run_pool :: "layer \<Rightarrow> tensor \<Rightarrow> error + (tensor \<times> tensor option)" where
  "example_run_pool (IcoPool (Some nb) (Some dn) pm) x =
     (if length (shape x) = 3 \<and> shape x ! 2 = length nb
      then Inr (zeros [shape x ! 0, shape x ! 1, length dn],
                if pm = ''max'' then Some (zeros [shape x ! 0, shape x ! 1, length dn]) else None)
      else Inl (RuntimeError ''pool''))"
| "example_run_pool l x = Inl (RuntimeError ''layer'')"

fun example_run_unpool :: "layer \<Rightarrow> tensor \<Rightarrow> tensor option \<Rightarrow> error + tensor" where
  "example_run_unpool (IcoMaxIndexUpSample i oc nb (Some dn)) x (Some p) =
     (if length (shape x) = 3 \<and> shape x ! 1 = i \<and> shape x ! 2 = length dn
      then Inr (zeros [shape x ! 0, oc, length nb]) else Inl (RuntimeError ''up''))"
| "example_run_unpool l x p = Inl (RuntimeError ''layer'')"

definition example_engine :: engine where
  "example_engine =
     \<lparr>run_layer = example_run_layer, run_pool = example_run_pool,
      run_unpool = example_run_unpool\<rparr>"

text \<open>
  The indices that turn \<open>idx\<close> of \<^verbatim>\<open>SurfCutOut.run\<close> overwrites, and the
  overwriting of an array at a list of indices.
\<close>

definition cutout_patch :: "SurfCutOut \<Rightarrow> (nat \<Rightarrow> nat) \<Rightarrow> nat \<Rightarrow> nat list" where
  "cutout_patch self ent idx =
     (case (random_node self ent idx, random_size self ent idx) of
        (Inr node, Inr rings) \<Rightarrow> find_neighbors (nat node) rings (co_neighs self)
      | _ \<Rightarrow> [])"

definition apply_patch :: "real \<Rightarrow> nat list \<Rightarrow> real list \<Rightarrow> real list" where
  "apply_patch v idxs xs = fold (\<lambda>i ys. ys[i := v]) idxs xs"

text \<open>
  A cut-out on a mesh of three vertices, each the neighbour of the two others, with
  patches of one ring.
\<close>

definition example_cutout :: SurfCutOut where
  "example_cutout =
     \<lparr>co_vertices = [[1, 0, 0], [0, 1, 0], [0, 0, 1]], co_triangles = [[0, 1, 2]],
      co_neighs = [(0, [1, 2]), (1, [0, 2]), (2, [0, 1])],
      patch_size = 1, n_patches = 1, co_sigma = 0, replacement_value = 0\<rparr>"

section \<open>Basic facts\<close>

lemma bindE_simps [simp]: "bindE (Inl e) f = Inl e" "bindE (Inr v) f = f v"
  by (simp_all add: bindE_def)

lemma bindE_eq_Inr: "bindE m f = Inr y \<longleftrightarrow> (\<exists>v. m = Inr v \<and> f v = Inr y)"
  by (cases m) simp_all

lemma init_fields:
  assumes "fst (SphericalUNet_init G w b n in_ch out_ch d start cm um) = Inr m"
  shows "in_vertices m = number_of_ico_vertices G n" and "in_order m = n" and "depth m = d"
    and "out_channels m = out_ch" and "in_channels m = in_ch"
    and "out_features (fc m) = out_ch" and "list_get (filts m) 1 = Inr (in_features (fc m))"
  using assms
  by (auto simp: SphericalUNet_init_def Let_def split: prod.splits sum.splits)

lemma example_init:
  "\<exists>m. fst (SphericalUNet_init example_geometry (\<lambda>oc j. 0) (\<lambda>oc. 0) 2 2 4 2 8
              ''1ring'' ''interp'') = Inr m
     \<and> filts m = [2, 8, 16] \<and> in_vertices m = 162 \<and> out_channels m = 4"
  by (simp add: SphericalUNet_init_def build_hierarchy_def range2_def range_down_def
      upto_rec1 dict_get_def list_get_def down_block_at_def up_block_at_def UpBlock_init_def
      Let_def example_geometry_def make_filts_def)

section \<open>The check of the input of a forward pass\<close>

text \<open>
  C1. For a network that the constructor returned and an input with a third dimension
  whose size differs from \<open>number_of_ico_vertices in_order\<close>, the forward pass raises the
  \<open>RuntimeError\<close> of the check, and no step has been run: no DownBlock, no UpBlock, not
  the final projection.
\<close>

theorem forward_rejects_vertex_mismatch:
  assumes "fst (SphericalUNet_init G w b n in_ch out_ch d start cm um) = Inr m"
      and "2 < length (shape x)"
      and "shape x ! 2 \<noteq> number_of_ico_vertices G n"
  shows "forward E m x =
           (Inl (RuntimeError ''Input data must be projected on an {0} order icosahedron.''), [])"
  using assms by (simp add: forward_def size_dim_def init_fields(1))

theorem forward_rejects_vertex_mismatch_witness:
  "\<exists>m. fst (SphericalUNet_init example_geometry (\<lambda>oc j. 0) (\<lambda>oc. 0) 2 2 4 2 8
              ''1ring'' ''interp'') = Inr m
     \<and> forward example_engine m (zeros [10, 2, 42]) =
         (Inl (RuntimeError ''Input data must be projected on an {0} order icosahedron.''), [])"
proof -
  obtain m where m: "fst (SphericalUNet_init example_geometry (\<lambda>oc j. 0) (\<lambda>oc. 0) 2 2 4 2 8
              ''1ring'' ''interp'') = Inr m"
    using example_init by blast
  have len: "2 < length (shape (zeros [10, 2, 42]))"
    by (simp add: zeros_def)
  have ne: "shape (zeros [10, 2, 42]) ! 2 \<noteq> number_of_ico_vertices example_geometry 2"
    by (simp add: zeros_def example_geometry_def)
  show ?thesis
    using m forward_rejects_vertex_mismatch [OF m len ne] by blast
qed

section \<open>The final projection\<close>

lemma idx2_div: "j < (N::nat) \<Longrightarrow> (a * N + j) div N = a"
  by simp

lemma idx2_mod: "j < (N::nat) \<Longrightarrow> (a * N + j) mod N = j"
  by simp

lemma idx2_less: "a < (M::nat) \<Longrightarrow> j < N \<Longrightarrow> a * N + j < M * N"
proof -
  assume a: "a < M" and j: "j < N"
  have "a * N + j < a * N + N" using j by simp
  also have "\<dots> = (a + 1) * N" by simp
  also have "\<dots> \<le> M * N" using a by (intro mult_le_mono1) simp
  finally show ?thesis .
qed

lemma decode3:
  assumes "(k::nat) < B * (M * N)"
  shows "k div (M * N) < B" "k mod (M * N) div N < M" "k mod N < N"
    "k mod (M * N) mod N = k mod N"
proof -
  have mn: "0 < M * N" using assms by (cases "M * N = 0") auto
  then have n: "0 < N" and m: "0 < M" by auto
  show "k div (M * N) < B" using assms mn
    by (simp add: less_mult_imp_div_less mult.commute)
  have "k mod (M * N) < M * N" using mn by simp
  then show "k mod (M * N) div N < M" using n
    by (simp add: less_mult_imp_div_less)
  show "k mod N < N" using n by simp
  show "k mod (M * N) mod N = k mod N"
    by (simp add: mod_mod_cancel)
qed

lemma fc_stage_data:
  assumes sh: "shape x = [B, C, V]"
      and iv: "in_vertices m = V"
      and f1: "list_get (filts m) 1 = Inr C"
      and inf: "in_features (fc m) = C"
      and outf: "out_features (fc m) = out_channels m"
  shows "fc_stage m x =
     Inr \<lparr>shape = [B, out_channels m, V],
          data = map (\<lambda>k. (\<Sum>j\<leftarrow>[0..<C].
                       data x ! (k div (out_channels m * V) * (C * V) + j * V + k mod V)
                       * weight (fc m) (k mod (out_channels m * V) div V) j)
                     + bias (fc m) (k mod (out_channels m * V) div V))
                     [0..<B * out_channels m * V]\<rparr>"
proof -
  define Oc where "Oc = out_channels m"
  define d1 where "d1 = map (\<lambda>k. data x ! (k div (V * C) * (C * V) + k mod C * V
                                            + k mod (V * C) div C)) [0..<B * V * C]"
  define d3 where "d3 = map (\<lambda>k. (\<Sum>j\<leftarrow>[0..<C]. d1 ! (k div Oc * C + j) * weight (fc m) (k mod Oc) j)
                              + bias (fc m) (k mod Oc)) [0..<B * V * Oc]"
  have p1: "permute_021 x = Inr \<lparr>shape = [B, V, C], data = d1\<rparr>"
    by (simp add: permute_021_def sh d1_def)
  have r2: "reshape \<lparr>shape = [B, V, C], data = d1\<rparr> [B * V, C] = Inr \<lparr>shape = [B * V, C], data = d1\<rparr>"
    by (simp add: reshape_def)
  have l3: "Linear_forward (fc m) \<lparr>shape = [B * V, C], data = d1\<rparr> = Inr \<lparr>shape = [B * V, Oc], data = d3\<rparr>"
    by (simp add: Linear_forward_def inf outf Oc_def d3_def)
  have v4: "view \<lparr>shape = [B * V, Oc], data = d3\<rparr> [B, V, Oc] = Inr \<lparr>shape = [B, V, Oc], data = d3\<rparr>"
    by (simp add: view_def)
  have p5: "permute_021 \<lparr>shape = [B, V, Oc], data = d3\<rparr> =
      Inr \<lparr>shape = [B, Oc, V],
           data = map (\<lambda>k. d3 ! (k div (Oc * V) * (V * Oc) + k mod V * Oc + k mod (Oc * V) div V))
                      [0..<B * Oc * V]\<rparr>"
    by (simp add: permute_021_def)
  have stage: "fc_stage m x =
      Inr \<lparr>shape = [B, Oc, V],
           data = map (\<lambda>k. d3 ! (k div (Oc * V) * (V * Oc) + k mod V * Oc + k mod (Oc * V) div V))
                      [0..<B * Oc * V]\<rparr>"
    by (simp add: fc_stage_def len_tensor_def sh p1 f1 iv r2 l3 v4 p5 Oc_def[symmetric])
  have pt: "d3 ! (k div (Oc * V) * (V * Oc) + k mod V * Oc + k mod (Oc * V) div V) =
        (\<Sum>j\<leftarrow>[0..<C]. data x ! (k div (Oc * V) * (C * V) + j * V + k mod V)
                       * weight (fc m) (k mod (Oc * V) div V) j)
         + bias (fc m) (k mod (Oc * V) div V)" if k: "k < B * Oc * V" for k
  proof -
    define bi where "bi = k div (Oc * V)"
    define oi where "oi = k mod (Oc * V) div V"
    define vi where "vi = k mod V"
    have k': "k < B * (Oc * V)" using k by (simp add: mult.assoc)
    have bi: "bi < B" and oi: "oi < Oc" and vi: "vi < V"
      using decode3[OF k'] by (simp_all add: bi_def oi_def vi_def)
    define r where "r = bi * V + vi"
    have r: "r < B * V" unfolding r_def by (rule idx2_less[OF bi vi])
    have i3: "bi * (V * Oc) + vi * Oc + oi = r * Oc + oi"
      by (simp add: r_def algebra_simps)
    have i3_less: "r * Oc + oi < B * V * Oc" by (rule idx2_less[OF r oi])
    have d3_at: "d3 ! (r * Oc + oi) =
        (\<Sum>j\<leftarrow>[0..<C]. d1 ! (r * C + j) * weight (fc m) oi j) + bias (fc m) oi"
      using i3_less oi by (simp add: d3_def)
    have d1_at: "d1 ! (r * C + j) = data x ! (bi * (C * V) + j * V + vi)" if j: "j < C" for j
    proof -
      have less: "r * C + j < B * V * C" by (rule idx2_less[OF r j])
      have e: "r * C + j = bi * (V * C) + (vi * C + j)" by (simp add: r_def algebra_simps)
      have vc: "vi * C + j < V * C" by (rule idx2_less[OF vi j])
      have "(r * C + j) div (V * C) = bi"
        unfolding e by (rule idx2_div[OF vc])
      moreover have "(r * C + j) mod C = j"
        by (rule idx2_mod[OF j])
      moreover have "(r * C + j) mod (V * C) div C = vi"
        unfolding e idx2_mod[OF vc] by (rule idx2_div[OF j])
      ultimately show ?thesis using less by (simp add: d1_def)
    qed
    have "(\<Sum>j\<leftarrow>[0..<C]. d1 ! (r * C + j) * weight (fc m) oi j)
        = (\<Sum>j\<leftarrow>[0..<C]. data x ! (bi * (C * V) + j * V + vi) * weight (fc m) oi j)"
      by (rule arg_cong[where f = sum_list], rule map_cong) (simp_all add: d1_at)
    then show ?thesis
      using d3_at by (simp add: i3 bi_def[symmetric] oi_def[symmetric] vi_def[symmetric])
  qed
  show ?thesis
    unfolding stage Oc_def[symmetric]
    by (simp add: pt)
qed

lemma at3_decode:
  assumes "(b::nat) < B" "(c::nat) < C" "(v::nat) < V"
  shows "((b * C + c) * V + v) div (C * V) = b"
    and "((b * C + c) * V + v) mod (C * V) div V = c"
    and "((b * C + c) * V + v) mod V = v"
proof -
  have e: "(b * C + c) * V + v = b * (C * V) + (c * V + v)"
    by (simp add: algebra_simps)
  have cv: "c * V + v < C * V" by (rule idx2_less[OF assms(2,3)])
  show "((b * C + c) * V + v) div (C * V) = b"
    unfolding e by (rule idx2_div[OF cv])
  show "((b * C + c) * V + v) mod (C * V) div V = c"
    unfolding e idx2_mod[OF cv] by (rule idx2_div[OF assms(3)])
  show "((b * C + c) * V + v) mod V = v"
    by (rule idx2_mod[OF assms(3)])
qed

text \<open>
  C8. For a network that the constructor returned and an input of shape
  \<open>(batch, filts[1], V)\<close>, the final stage of the forward pass (permute, fold the vertices
  into the batch, linear layer, unfold, permute back) returns a tensor of shape
  \<open>(batch, out_channels, V)\<close> in which the feature vector of every vertex of every sample
  is the linear map of the layer applied to the feature vector of that vertex in the input.
\<close>

theorem fc_stage_vertexwise:
  assumes init: "fst (SphericalUNet_init G w b n in_ch out_ch d start cm um) = Inr m"
      and f1: "list_get (filts m) 1 = Inr C"
      and sh: "shape x = [B, C, in_vertices m]"
  shows "\<exists>y. fc_stage m x = Inr y
           \<and> shape y = [B, out_channels m, in_vertices m]
           \<and> length (data y) = B * out_channels m * in_vertices m
           \<and> (\<forall>bi<B. \<forall>vi<in_vertices m.
                 feature_vector y bi vi = linear_apply (fc m) (feature_vector x bi vi))"
proof -
  define V where "V = in_vertices m"
  define Oc where "Oc = out_channels m"
  have inf: "in_features (fc m) = C"
    using init_fields(7)[OF init] f1 by simp
  have outf: "out_features (fc m) = out_channels m"
    using init_fields(6)[OF init] init_fields(4)[OF init] by simp
  define y where "y = \<lparr>shape = [B, Oc, V],
          data = map (\<lambda>k. (\<Sum>j\<leftarrow>[0..<C].
                       data x ! (k div (Oc * V) * (C * V) + j * V + k mod V)
                       * weight (fc m) (k mod (Oc * V) div V) j)
                     + bias (fc m) (k mod (Oc * V) div V))
                     [0..<B * Oc * V]\<rparr>"
  have stage: "fc_stage m x = Inr y"
    unfolding y_def Oc_def V_def
    by (rule fc_stage_data[OF sh refl f1 inf outf])
  have fv: "feature_vector y bi vi = linear_apply (fc m) (feature_vector x bi vi)"
    if bi: "bi < B" and vi: "vi < V" for bi vi
  proof -
    have el: "at3 y bi oi vi =
        (\<Sum>j\<leftarrow>[0..<C]. at3 x bi j vi * weight (fc m) oi j) + bias (fc m) oi"
      if oi: "oi < Oc" for oi
    proof -
      have less: "(bi * Oc + oi) * V + vi < B * Oc * V"
        using idx2_less[OF idx2_less[OF bi oi] vi] .
      show ?thesis
        using less at3_decode[OF bi oi vi]
        by (simp add: at3_def y_def sh V_def[symmetric] algebra_simps)
    qed
    have "feature_vector y bi vi = map (\<lambda>oi. at3 y bi oi vi) [0..<Oc]"
      by (simp add: feature_vector_def y_def)
    also have "\<dots> = map (\<lambda>oi. (\<Sum>j\<leftarrow>[0..<C]. at3 x bi j vi * weight (fc m) oi j)
                              + bias (fc m) oi) [0..<Oc]"
      by (rule map_cong) (simp_all add: el)
    also have "\<dots> = linear_apply (fc m) (feature_vector x bi vi)"
    proof -
      have "(\<Sum>j\<leftarrow>[0..<C]. at3 x bi j vi * weight (fc m) oi j)
          = (\<Sum>j\<leftarrow>[0..<C]. feature_vector x bi vi ! j * weight (fc m) oi j)" for oi
        by (rule arg_cong[where f = sum_list], rule map_cong)
           (simp_all add: feature_vector_def sh)
      then show ?thesis
        by (simp add: linear_apply_def inf outf Oc_def)
    qed
    finally show ?thesis .
  qed
  show ?thesis
    using stage fv by (auto simp: y_def V_def Oc_def)
qed

theorem fc_stage_vertexwise_witness:
  "\<exists>m y. fst (SphericalUNet_init example_geometry (\<lambda>oc j. 0) (\<lambda>oc. 0) 2 2 4 2 8
              ''1ring'' ''interp'') = Inr m
     \<and> fc_stage m (zeros [10, 8, 162]) = Inr y
     \<and> shape y = [10, 4, 162]
     \<and> feature_vector y 3 5 = linear_apply (fc m) (feature_vector (zeros [10, 8, 162]) 3 5)"
proof -
  obtain m where m: "fst (SphericalUNet_init example_geometry (\<lambda>oc j. 0) (\<lambda>oc. 0) 2 2 4 2 8
              ''1ring'' ''interp'') = Inr m"
      and fs: "filts m = [2, 8, 16]" and iv: "in_vertices m = 162" and oc: "out_channels m = 4"
    using example_init by blast
  have f1: "list_get (filts m) 1 = Inr 8"
    by (simp add: fs list_get_def)
  have sh: "shape (zeros [10, 8, 162]) = [10, 8, in_vertices m]"
    by (simp add: zeros_def iv)
  from fc_stage_vertexwise [OF m f1 sh] obtain y where
    "fc_stage m (zeros [10, 8, 162]) = Inr y" "shape y = [10, 4, 162]"
    "\<forall>bi<10. \<forall>vi<162. feature_vector y bi vi
        = linear_apply (fc m) (feature_vector (zeros [10, 8, 162]) bi vi)"
    by (auto simp: iv oc)
  then show ?thesis using m by auto
qed

section \<open>SurfBlur: ring depth and kernel\<close>

lemma py_int_round: "max 1 (py_int (x + 1 / 2)) = max 1 (round x)"
proof (cases "0 \<le> x + 1 / 2")
  case True
  then show ?thesis by (simp add: py_int_def round_def)
next
  case False
  then have "\<lceil>x + 1 / 2\<rceil> \<le> 0" by (simp add: ceiling_le_iff)
  moreover from False have "\<lfloor>x + 1 / 2\<rfloor> \<le> 0" by (simp add: floor_le_iff)
  ultimately show ?thesis using False by (simp add: py_int_def round_def)
qed

lemma blur_depth_round: "blur_depth sigma = max 1 (round (2 * sigma))"
  using py_int_round[of "2 * sigma"] by (simp add: blur_depth_def)

text \<open>
  C5. For a \<^verbatim>\<open>SurfBlur\<close> constructed with standard deviation \<open>sigma\<close> and no
  neighbour table of the caller's, the table of the blur convolution is the one that
  \<^verbatim>\<open>neighbors\<close> returns for the ring depth \<open>max 1 (round (2 sigma))\<close>, and the
  ring positions are those of that depth. \<open>round\<close> is rounding to the nearest integer, a
  half going up: \<open>round x = \<lfloor>x + 1/2\<rfloor>\<close>, so that \<open>sigma = 1.25\<close> gives depth 3.
\<close>

theorem blur_ring_depth:
  assumes "SurfBlur_init G vs ts sigma None = Inr b"
  shows "bl_neighs b = map snd (neighbors G vs ts (max 1 (round (2 * sigma))))
       \<and> conv b = ConvLayer IcoDiNeConv 1 1
                    (RingNeighs (map snd (neighbors G vs ts (max 1 (round (2 * sigma))))))
       \<and> positions b = ring_positions (max 1 (round (2 * sigma)))"
  using assms
  by (auto simp: SurfBlur_init_def Let_def blur_depth_round split: list.splits if_splits)

lemma example_blur:
  "\<exists>b. SurfBlur_init example_geometry [[0, 0, 0]] [] (5 / 4) None = Inr b"
  by (simp add: SurfBlur_init_def Let_def blur_depth_def py_int_def example_geometry_def
      ring_positions_def range2_def upto_rec1)

theorem blur_ring_depth_witness:
  "\<exists>b. SurfBlur_init example_geometry [[0, 0, 0]] [] (5 / 4) None = Inr b
     \<and> bl_neighs b = map snd (neighbors example_geometry [[0, 0, 0]] [] 3)
     \<and> positions b = ring_positions 3"
proof -
  obtain b where b: "SurfBlur_init example_geometry [[0, 0, 0]] [] (5 / 4) None = Inr b"
    using example_blur by blast
  have r: "round (5 / 2 :: real) = 3"
    by (simp add: round_def)
  show ?thesis
    using b blur_ring_depth [OF b] by (simp add: r)
qed

lemma foldl_np_add_Fin: "foldl np_add (Fin a) (map Fin xs) = Fin (a + sum_list xs)"
  by (induction xs arbitrary: a) (simp_all add: add.assoc)

lemma np_sum_Fin: "np_sum (map Fin xs) = Fin (sum_list xs)"
  by (simp add: np_sum_def foldl_np_add_Fin)

lemma sum_list_pos_real:
  assumes "xs \<noteq> []" "\<forall>x\<in>set xs. 0 < (x::real)"
  shows "0 < sum_list xs"
  using assms by (induction xs) (auto intro: add_pos_nonneg sum_list_nonneg less_imp_le)

lemma gaussian_kernel_Fin:
  assumes "bl_sigma b \<noteq> 0"
  shows "gaussian_kernel b =
     map Fin (map (\<lambda>p. exp (- 0.5 * (of_int p / bl_sigma b) ^ 2)) (positions b))"
  using assms by (simp add: gaussian_kernel_def)

lemma blur_positions_nonempty:
  assumes "SurfBlur_init G vs ts sigma given = Inr b"
  shows "positions b \<noteq> []" and "bl_sigma b = sigma"
  using assms
  by (auto simp: SurfBlur_init_def Let_def ring_positions_def split: list.splits if_splits)

text \<open>
  C6, amended. For a \<^verbatim>\<open>SurfBlur\<close> with a standard deviation other than zero, the
  weight of a slot at ring distance \<open>r\<close> is \<open>exp (- 0.5 (r / sigma)\<^sup>2)\<close> divided by the
  total over all slots, the centre included, and the weights sum to one.
\<close>

theorem kernel_sums_to_one:
  assumes init: "SurfBlur_init G vs ts sigma given = Inr b"
      and nz: "sigma \<noteq> 0"
  shows "normalized_kernel b =
           map (\<lambda>r. Fin (exp (- 0.5 * (of_int r / sigma) ^ 2)
                         / (\<Sum>q\<leftarrow>positions b. exp (- 0.5 * (of_int q / sigma) ^ 2))))
               (positions b)
       \<and> np_sum (normalized_kernel b) = Fin 1"
proof -
  define es where "es = map (\<lambda>p. exp (- 0.5 * (of_int p / sigma) ^ 2)) (positions b)"
  have sg: "bl_sigma b = sigma" and ne: "positions b \<noteq> []"
    using blur_positions_nonempty[OF init] by simp_all
  have gk: "gaussian_kernel b = map Fin es"
    using gaussian_kernel_Fin[of b] nz by (simp add: sg es_def)
  have pos: "0 < sum_list es"
    by (rule sum_list_pos_real) (use ne in \<open>auto simp: es_def\<close>)
  have nk: "normalized_kernel b = map Fin (map (\<lambda>e. e / sum_list es) es)"
    using pos by (simp add: normalized_kernel_def gk np_sum_Fin)
  have "sum_list (map (\<lambda>e. e / sum_list es) es) = sum_list es / sum_list es"
    by (simp add: divide_inverse sum_list_mult_const)
  also have "\<dots> = 1" using pos by simp
  finally have one: "np_sum (normalized_kernel b) = Fin 1"
    unfolding nk np_sum_Fin by simp
  have "normalized_kernel b =
           map (\<lambda>r. Fin (exp (- 0.5 * (of_int r / sigma) ^ 2)
                         / (\<Sum>q\<leftarrow>positions b. exp (- 0.5 * (of_int q / sigma) ^ 2))))
               (positions b)"
    by (simp add: nk es_def comp_def)
  with one show ?thesis by simp
qed

theorem kernel_sums_to_one_witness:
  "\<exists>b. SurfBlur_init example_geometry [[0, 0, 0]] [] (5 / 4) None = Inr b
     \<and> np_sum (normalized_kernel b) = Fin 1"
proof -
  obtain b where b: "SurfBlur_init example_geometry [[0, 0, 0]] [] (5 / 4) None = Inr b"
    using example_blur by blast
  have nz: "(5 / 4 :: real) \<noteq> 0" by simp
  show ?thesis
    using b kernel_sums_to_one [OF b nz] by blast
qed

text \<open>
  C6 as stated fails for \<open>sigma = 0\<close>: the centre slot is \<open>0 / 0\<close>, not-a-number, and
  so are the sum and every weight.
\<close>

theorem kernel_sigma_zero_counterexample:
  "(case SurfBlur_init example_geometry [[0, 0, 0]] [] 0 None of
      Inl e \<Rightarrow> False
    | Inr b \<Rightarrow> positions b = [0, 1, 1, 1, 1, 1, 1] \<and> np_sum (normalized_kernel b) = NaN)"
  by (simp add: SurfBlur_init_def Let_def blur_depth_def py_int_def example_geometry_def
      ring_positions_def range2_def upto_rec1 normalized_kernel_def gaussian_kernel_def
      np_sum_def eval_nat_numeral)

section \<open>SurfCutOut and SurfNoise\<close>

lemma np_randint_range:
  assumes "np_randint low high u = Inr r"
  shows "low \<le> r" and "r < high"
proof -
  have lt: "low < high" and r: "r = low + int u mod (high - low)"
    using assms by (auto simp: np_randint_def split: if_splits)
  have "0 \<le> int u mod (high - low)" "int u mod (high - low) < high - low"
    using lt by simp_all
  then show "low \<le> r" and "r < high" using r by simp_all
qed

lemma np_randint_ok: "low < high \<Longrightarrow> \<exists>r. np_randint low high u = Inr r"
  by (simp add: np_randint_def)

lemma apply_patch_length [simp]: "length (apply_patch v idxs xs) = length xs"
  unfolding apply_patch_def by (induction idxs arbitrary: xs) simp_all

lemma apply_patch_nth:
  "i < length xs \<Longrightarrow> apply_patch v idxs xs ! i = (if i \<in> set idxs then v else xs ! i)"
  unfolding apply_patch_def
proof (induction idxs arbitrary: xs)
  case Nil
  then show ?case by simp
next
  case (Cons j idxs)
  then show ?case by (simp add: nth_list_update)
qed

lemma set_items_ok:
  "\<forall>i\<in>set idxs. i < length xs \<Longrightarrow> set_items xs idxs v = Inr (apply_patch v idxs xs)"
  by (simp add: set_items_def apply_patch_def list_all_iff)

lemma cutout_loop_ok:
  assumes "0 < length (co_vertices self)" and "0 \<le> co_sigma self"
      and "\<forall>idx\<in>set idxs. \<forall>i\<in>set (cutout_patch self ent idx). i < length (h r)"
  shows "cutout_loop self ent idxs h r =
           (Inr r, h(r := fold (\<lambda>idx. apply_patch (replacement_value self)
                                          (cutout_patch self ent idx)) idxs (h r)))"
  using assms(3)
proof (induction idxs arbitrary: h)
  case Nil
  then show ?case by simp
next
  case (Cons idx idxs)
  obtain node where node: "random_node self ent idx = Inr node"
    using np_randint_ok[of 0 "int (length (co_vertices self))"] assms(1)
    by (auto simp: random_node_def)
  obtain rings where rings: "random_size self ent idx = Inr rings"
    using np_randint_ok[of "patch_size self - co_sigma self" "patch_size self + co_sigma self + 1"]
      assms(2)
    by (auto simp: random_size_def)
  have patch: "cutout_patch self ent idx = find_neighbors (nat node) rings (co_neighs self)"
    by (simp add: cutout_patch_def node rings)
  have inr: "\<forall>i\<in>set (find_neighbors (nat node) rings (co_neighs self)). i < length (h r)"
    using Cons.prems by (simp add: patch)
  let ?h1 = "h(r := apply_patch (replacement_value self) (cutout_patch self ent idx) (h r))"
  have "\<forall>idx\<in>set idxs. \<forall>i\<in>set (cutout_patch self ent idx). i < length (?h1 r)"
    using Cons.prems by simp
  from Cons.IH[of ?h1, OF this]
  have ih: "cutout_loop self ent idxs ?h1 r =
      (Inr r, ?h1(r := fold (\<lambda>idx. apply_patch (replacement_value self)
                                          (cutout_patch self ent idx)) idxs (?h1 r)))" .
  have step: "cutout_loop self ent (idx # idxs) h r = cutout_loop self ent idxs ?h1 r"
    by (simp add: node rings set_items_ok[OF inr] patch)
  show ?case
    unfolding step ih by (simp add: fun_eq_iff)
qed

lemma cutout_loop_frame:
  "a \<noteq> r \<Longrightarrow> snd (cutout_loop self ent idxs h r) a = h a"
  by (induction idxs arbitrary: h) (auto split: sum.splits)

lemma within_rings_distinct: "distinct (within_rings tbl k v)"
  by (cases k) simp_all

text \<open>
  C9. \<^verbatim>\<open>SurfCutOut.run\<close> and \<^verbatim>\<open>SurfNoise.run\<close> return the reference they were
  given, and the array at that reference holds the perturbed values: the patches of all
  turns overwritten with the replacement value, respectively the values plus the noise.
  No other array of the store changes, whether the call returns or raises. The runs
  return when the draws can be made (a mesh with a vertex and \<open>sigma \<ge> 0\<close>) and the
  patches lie within the array.
\<close>

theorem in_place_runs:
  "(0 < length (co_vertices self) \<and> 0 \<le> co_sigma self
      \<and> (\<forall>idx<nat (n_patches self). \<forall>i\<in>set (cutout_patch self ent idx). i < length (h r))
    \<longrightarrow> SurfCutOut_run self ent h r =
          (Inr r, h(r := fold (\<lambda>idx. apply_patch (replacement_value self)
                                         (cutout_patch self ent idx))
                              [0..<nat (n_patches self)] (h r))))
   \<and> (\<forall>a. a \<noteq> r \<longrightarrow> snd (SurfCutOut_run self ent h r) a = h a)
   \<and> (0 \<le> sigma \<longrightarrow> SurfNoise_run sigma z h r =
          (Inr r, h(r := map2 (+) (h r) (map (\<lambda>i. sigma * z i) [0..<length (h r)]))))
   \<and> (\<forall>a. a \<noteq> r \<longrightarrow> snd (SurfNoise_run sigma z h r) a = h a)"
proof (intro conjI impI allI)
  assume "0 < length (co_vertices self) \<and> 0 \<le> co_sigma self
      \<and> (\<forall>idx<nat (n_patches self). \<forall>i\<in>set (cutout_patch self ent idx). i < length (h r))"
  then show "SurfCutOut_run self ent h r =
          (Inr r, h(r := fold (\<lambda>idx. apply_patch (replacement_value self)
                                         (cutout_patch self ent idx))
                              [0..<nat (n_patches self)] (h r)))"
    unfolding SurfCutOut_run_def by (intro cutout_loop_ok) auto
next
  fix a assume "a \<noteq> r"
  then show "snd (SurfCutOut_run self ent h r) a = h a"
    unfolding SurfCutOut_run_def by (rule cutout_loop_frame)
next
  assume "0 \<le> sigma"
  then show "SurfNoise_run sigma z h r =
          (Inr r, h(r := map2 (+) (h r) (map (\<lambda>i. sigma * z i) [0..<length (h r)])))"
    by (simp add: SurfNoise_run_def np_random_normal_def)
next
  fix a assume "a \<noteq> r"
  then show "snd (SurfNoise_run sigma z h r) a = h a"
    by (simp add: SurfNoise_run_def split: sum.splits)
qed

theorem in_place_runs_witness:
  "SurfCutOut_run example_cutout (\<lambda>i. 0) (\<lambda>a. [1, 1, 1]) 0 =
      (Inr 0, (\<lambda>a. [1, 1, 1])(0 := [0, 0, 0]))
   \<and> SurfNoise_run 2 (\<lambda>i. 1) (\<lambda>a. [1, 1, 1]) 0 = (Inr 0, (\<lambda>a. [1, 1, 1])(0 := [3, 3, 3]))"
proof -
  have p: "cutout_patch example_cutout (\<lambda>i. 0) 0 = [0, 1, 2]"
    by (simp add: cutout_patch_def random_node_def random_size_def np_randint_def
        example_cutout_def find_neighbors_def neighbours_of_def)
  have pre: "0 < length (co_vertices example_cutout) \<and> 0 \<le> co_sigma example_cutout
      \<and> (\<forall>idx<nat (n_patches example_cutout).
            \<forall>i\<in>set (cutout_patch example_cutout (\<lambda>i. 0) idx). i < length ((\<lambda>a. [1, 1, 1::real]) (0::nat)))"
    using p by (auto simp: example_cutout_def)
  have n: "nat (n_patches example_cutout) = 1" "replacement_value example_cutout = 0"
    by (simp_all add: example_cutout_def)
  have u: "[0..<3] = [0, 1, 2]" by (simp add: upt_rec)
  from in_place_runs [of example_cutout "\<lambda>i. 0" "\<lambda>a. [1, 1, 1]" 0 2 "\<lambda>i. 1"] pre
  show ?thesis
    by (simp add: n p apply_patch_def u)
qed

lemma count_zeroed:
  assumes "\<forall>i\<in>set p. i < N" and "distinct p"
  shows "length (filter (\<lambda>v. v = 0) (apply_patch 0 p (replicate N (1::real)))) = length p"
proof -
  let ?ys = "apply_patch 0 p (replicate N (1::real))"
  have "length (filter (\<lambda>v. v = 0) ?ys) = card {i. i < length ?ys \<and> ?ys ! i = 0}"
    by (rule length_filter_conv_card)
  also have "{i. i < length ?ys \<and> ?ys ! i = 0} = set p"
    using assms(1) by (auto simp: apply_patch_nth split: if_splits)
  also have "card (set p) = length p"
    using assms(2) by (rule distinct_card)
  finally show ?thesis .
qed

text \<open>
  C7, amended. For a field of all ones and a \<^verbatim>\<open>SurfCutOut\<close> with one patch and
  replacement value 0, on a mesh with a vertex, with \<open>sigma \<ge> 0\<close> and a patch that lies
  within the field: the call returns the field; the number of rings used lies between
  \<open>patch_size - sigma\<close> and \<open>patch_size + sigma\<close>; the vertices zeroed are exactly those
  that \<^verbatim>\<open>find_neighbors\<close> returns for the drawn vertex and that number of rings, each
  once, so that their number is the number of vertices of the patch; every other vertex
  still holds 1.
\<close>

theorem cutout_single_patch:
  assumes np: "n_patches self = 1"
      and rv: "replacement_value self = 0"
      and nv: "0 < length (co_vertices self)"
      and sg: "0 \<le> co_sigma self"
      and ones: "h r = replicate N 1"
      and inr: "\<forall>i\<in>set (cutout_patch self ent 0). i < N"
  shows "\<exists>node rings.
           random_node self ent 0 = Inr node \<and> random_size self ent 0 = Inr rings
         \<and> patch_size self - co_sigma self \<le> rings \<and> rings \<le> patch_size self + co_sigma self
         \<and> fst (SurfCutOut_run self ent h r) = Inr r
         \<and> (\<forall>i<N. snd (SurfCutOut_run self ent h r) r ! i =
                (if i \<in> set (find_neighbors (nat node) rings (co_neighs self)) then 0 else 1))
         \<and> length (filter (\<lambda>v. v = 0) (snd (SurfCutOut_run self ent h r) r))
             = length (find_neighbors (nat node) rings (co_neighs self))"
proof -
  obtain node where node: "random_node self ent 0 = Inr node"
    using np_randint_ok[of 0 "int (length (co_vertices self))"] nv
    by (auto simp: random_node_def)
  obtain rings where rings: "random_size self ent 0 = Inr rings"
    using np_randint_ok[of "patch_size self - co_sigma self" "patch_size self + co_sigma self + 1"] sg
    by (auto simp: random_size_def)
  let ?p = "find_neighbors (nat node) rings (co_neighs self)"
  have patch: "cutout_patch self ent 0 = ?p"
    by (simp add: cutout_patch_def node rings)
  have rng: "patch_size self - co_sigma self \<le> rings" "rings \<le> patch_size self + co_sigma self"
    using np_randint_range[OF rings[unfolded random_size_def]] by simp_all
  have pre: "\<forall>idx\<in>set [0..<nat (n_patches self)]. \<forall>i\<in>set (cutout_patch self ent idx). i < length (h r)"
    using inr by (simp add: np ones)
  have run: "SurfCutOut_run self ent h r = (Inr r, h(r := apply_patch 0 ?p (replicate N 1)))"
    unfolding SurfCutOut_run_def
      cutout_loop_ok[of self "[0..<nat (n_patches self)]" ent h r, OF nv sg pre]
    by (simp add: np rv patch ones)
  have d: "distinct ?p"
    by (simp add: find_neighbors_def within_rings_distinct)
  have inr': "\<forall>i\<in>set ?p. i < N" using inr by (simp add: patch)
  show ?thesis
    using node rings rng count_zeroed[OF inr' d]
    by (simp add: run apply_patch_nth)
qed

theorem cutout_single_patch_witness:
  "random_size example_cutout (\<lambda>i. 0) 0 = Inr 1
   \<and> fst (SurfCutOut_run example_cutout (\<lambda>i. 0) (\<lambda>a. [1, 1, 1]) 0) = Inr 0
   \<and> length (filter (\<lambda>v. v = 0) (snd (SurfCutOut_run example_cutout (\<lambda>i. 0) (\<lambda>a. [1, 1, 1]) 0) 0))
       = length (find_neighbors 0 1 (co_neighs example_cutout))"
proof -
  have p: "cutout_patch example_cutout (\<lambda>i. 0) 0 = [0, 1, 2]"
    by (simp add: cutout_patch_def random_node_def random_size_def np_randint_def
        example_cutout_def find_neighbors_def neighbours_of_def)
  have h: "(\<lambda>a. [1, 1, 1::real]) (0::nat) = replicate 3 1"
    by (simp add: eval_nat_numeral)
  have inr: "\<forall>i\<in>set (cutout_patch example_cutout (\<lambda>i. 0) 0). i < 3"
    by (simp add: p)
  have a: "n_patches example_cutout = 1" "replacement_value example_cutout = 0"
    "0 < length (co_vertices example_cutout)" "0 \<le> co_sigma example_cutout"
    by (simp_all add: example_cutout_def)
  have rn: "random_node example_cutout (\<lambda>i. 0) 0 = Inr 0"
    "random_size example_cutout (\<lambda>i. 0) 0 = Inr 1"
    by (simp_all add: random_node_def random_size_def np_randint_def example_cutout_def)
  from cutout_single_patch [OF a h inr] show ?thesis
    by (auto simp: rn)
qed

text \<open>
  C7 as stated fails: with one ring around vertex 0 of the three-vertex mesh the patch
  size used is 1, and three vertices are zeroed.
\<close>

theorem cutout_count_counterexample:
  "random_size example_cutout (\<lambda>i. 0) 0 = Inr 1
   \<and> fst (SurfCutOut_run example_cutout (\<lambda>i. 0) (\<lambda>a. [1, 1, 1]) 0) = Inr 0
   \<and> snd (SurfCutOut_run example_cutout (\<lambda>i. 0) (\<lambda>a. [1, 1, 1]) 0) 0 = [0, 0, 0]
   \<and> length (filter (\<lambda>v. v = 0)
        (snd (SurfCutOut_run example_cutout (\<lambda>i. 0) (\<lambda>a. [1, 1, 1]) 0) 0)) \<noteq> 1"
  by (simp add: SurfCutOut_run_def random_node_def random_size_def np_randint_def
      example_cutout_def find_neighbors_def neighbours_of_def set_items_def)

section \<open>The construction of the network\<close>

lemma dict_get_Some [simp]: "hier k = Some r \<Longrightarrow> dict_get hier k = Inr r"
  by (simp add: dict_get_def)

lemma dict_get_None [simp]: "hier k = None \<Longrightarrow> dict_get hier k = Inl (KeyError k)"
  by (simp add: dict_get_def)

lemma ico_loop_ok:
  assumes "valid_conv_mode cm"
  shows "ico_loop G cm ks hier ev =
           (Inr (\<lambda>k. if k \<in> set ks then Some (base_ico G cm k) else hier k),
            ev @ concat (map (ico_events cm) ks))"
proof (induction ks arbitrary: hier ev)
  case Nil
  then show ?case by simp
next
  case (Cons k ks)
  have step: "ico_loop G cm (k # ks) hier ev =
      ico_loop G cm ks (hier(k \<mapsto> base_ico G cm k)) (ev @ ico_events cm k)"
    using assms
    by (auto simp: Let_def valid_conv_mode_def base_ico_def conv_table_def ring1_def
        ico_vertices_def ico_triangles_def ico_events_def)
  show ?case
    unfolding step Cons.IH by (simp add: fun_eq_iff)
qed

lemma ico_loop_invalid:
  assumes "\<not> valid_conv_mode cm"
  shows "ico_loop G cm (k # ks) hier ev =
           (Inl (ValueError ''Unexptected convolution mode.''),
            ev @ [CallIcosahedron k, CallNeighbors k 1])"
  using assms by (simp add: valid_conv_mode_def Let_def)

lemma down_indices_loop_ok:
  assumes "\<forall>k\<in>set ks. hier k \<noteq> None \<and> hier (k - 1) \<noteq> None"
      and "\<forall>k r. hier k = Some r \<longrightarrow> vertices r = Vf k"
  shows "down_indices_loop G ks hier ev =
           (Inr (\<lambda>j. if j \<in> set ks
                      then map_option (\<lambda>r. r\<lparr>down_indices := Some (downsample G (Vf j) (Vf (j - 1)))\<rparr>)
                             (hier j)
                      else hier j),
            ev @ map CallDownsample ks)"
  using assms
proof (induction ks arbitrary: hier ev)
  case Nil
  then show ?case by simp
next
  case (Cons k ks)
  obtain fine coarse where f: "hier k = Some fine" and c: "hier (k - 1) = Some coarse"
    using Cons.prems(1) by auto
  have vf: "vertices fine = Vf k" and vc: "vertices coarse = Vf (k - 1)"
    using Cons.prems(2) f c by auto
  let ?h1 = "hier(k \<mapsto> fine\<lparr>down_indices := Some (downsample G (Vf k) (Vf (k - 1)))\<rparr>)"
  have p1: "\<forall>k\<in>set ks. ?h1 k \<noteq> None \<and> ?h1 (k - 1) \<noteq> None"
    using Cons.prems(1) by auto
  have p2: "\<forall>j r. ?h1 j = Some r \<longrightarrow> vertices r = Vf j"
    using Cons.prems(2) vf by auto
  have step: "down_indices_loop G (k # ks) hier ev =
      down_indices_loop G ks ?h1 (ev @ [CallDownsample k])"
    by (simp add: f c vf vc)
  show ?case
    unfolding step Cons.IH[of ?h1, OF p1 p2]
    by (auto simp: fun_eq_iff f)
qed

lemma up_indices_loop_ok:
  assumes "\<forall>k\<in>set ks. hier k \<noteq> None \<and> hier (k + 1) \<noteq> None"
      and "\<forall>k r. hier k = Some r \<longrightarrow> vertices r = Vf k \<and> triangles r = Tf k"
  shows "up_indices_loop G ks hier ev =
           (Inr (\<lambda>j. if j \<in> set ks
                      then map_option (\<lambda>r. r\<lparr>up_indices :=
                               Some (map snd (interpolate G (Vf j) (Vf (j + 1)) (Tf (j + 1))))\<rparr>)
                             (hier j)
                      else hier j),
            ev @ map CallInterpolate ks)"
  using assms
proof (induction ks arbitrary: hier ev)
  case Nil
  then show ?case by simp
next
  case (Cons k ks)
  obtain coarse fine where c: "hier k = Some coarse" and f: "hier (k + 1) = Some fine"
    using Cons.prems(1) by auto
  have vc: "vertices coarse = Vf k" and vf: "vertices fine = Vf (k + 1)"
    and tf: "triangles fine = Tf (k + 1)" and tc: "triangles coarse = Tf k"
    using Cons.prems(2) f c by auto
  let ?h1 = "hier(k \<mapsto> coarse\<lparr>up_indices :=
                Some (map snd (interpolate G (Vf k) (Vf (k + 1)) (Tf (k + 1))))\<rparr>)"
  have p1: "\<forall>k\<in>set ks. ?h1 k \<noteq> None \<and> ?h1 (k + 1) \<noteq> None"
    using Cons.prems(1) by auto
  have p2: "\<forall>j r. ?h1 j = Some r \<longrightarrow> vertices r = Vf j \<and> triangles r = Tf j"
    using Cons.prems(2) vc tc by auto
  have step: "up_indices_loop G (k # ks) hier ev =
      up_indices_loop G ks ?h1 (ev @ [CallInterpolate k])"
    by (simp add: f c vf vc tf)
  show ?case
    unfolding step Cons.IH[of ?h1, OF p1 p2]
    by (auto simp: fun_eq_iff c)
qed

lemma build_hierarchy_ok:
  assumes "valid_conv_mode cm"
  shows "build_hierarchy G n cm = (Inr (final_ico G cm n), hierarchy_events cm n)"
proof -
  let ?h1 = "\<lambda>k. if k \<in> set (range2 1 (n + 1)) then Some (base_ico G cm k) else None"
  have l1: "ico_loop G cm (range2 1 (n + 1)) Map.empty [] =
      (Inr ?h1, concat (map (ico_events cm) [1..n]))"
    using ico_loop_ok[OF assms, of G "range2 1 (n + 1)" Map.empty "[]"]
    by (simp add: range2_def)
  let ?h2 = "\<lambda>j. if j \<in> set (range_down n 1)
                 then map_option (\<lambda>r. r\<lparr>down_indices :=
                        Some (downsample G (ico_vertices G j) (ico_vertices G (j - 1)))\<rparr>) (?h1 j)
                 else ?h1 j"
  have l2: "down_indices_loop G (range_down n 1) ?h1 ev =
      (Inr ?h2, ev @ map CallDownsample (range_down n 1))" for ev
    by (rule down_indices_loop_ok) (auto simp: range2_def range_down_def base_ico_def)
  let ?h3 = "\<lambda>j. if j \<in> set (range2 1 n)
                 then map_option (\<lambda>r. r\<lparr>up_indices :=
                        Some (map snd (interpolate G (ico_vertices G j) (ico_vertices G (j + 1))
                                         (ico_triangles G (j + 1))))\<rparr>) (?h2 j)
                 else ?h2 j"
  have l3: "up_indices_loop G (range2 1 n) ?h2 ev =
      (Inr ?h3, ev @ map CallInterpolate (range2 1 n))" for ev
    by (rule up_indices_loop_ok) (auto simp: range2_def range_down_def base_ico_def)
  have fin: "?h3 = final_ico G cm n"
    by (auto simp: fun_eq_iff final_ico_def range2_def range_down_def down_table_def
        up_table_def base_ico_def)
  show ?thesis
    unfolding build_hierarchy_def l1 prod.case sum.case l2 l3 fin
    by (simp add: hierarchy_events_def range2_def range_down_def)
qed

lemma filts_length: "length (make_filts in_ch start d) = Suc (nat d)"
  by (simp add: make_filts_def range2_def)

lemma list_get_filts:
  "0 \<le> i \<Longrightarrow> i \<le> d \<Longrightarrow>
     list_get (make_filts in_ch start d) i = Inr (make_filts in_ch start d ! nat i)"
  by (simp add: list_get_def filts_length)

lemma list_get_filts_fail: "d < 1 \<Longrightarrow> list_get (make_filts in_ch start d) 1 = Inl IndexError"
  by (simp add: list_get_def filts_length)

lemma filts_nth:
  assumes "1 \<le> i" "i \<le> d"
  shows "make_filts in_ch start d ! nat i = start * 2 ^ nat (i - 1)"
proof -
  have "nat i = Suc (nat (i - 1))" using assms by simp
  moreover have "nat (i - 1) < length (range2 0 d)" using assms by (simp add: range2_def)
  moreover have "range2 0 d ! nat (i - 1) = i - 1"
    using assms by (simp add: range2_def)
  ultimately show ?thesis by (simp add: make_filts_def)
qed

lemma filts_double:
  assumes "1 \<le> i" "i < d"
  shows "make_filts in_ch start d ! nat (i + 1) = 2 * make_filts in_ch start d ! nat i"
proof -
  have "nat i = Suc (nat (i - 1))" using assms by simp
  then show ?thesis
    using filts_nth[of "i + 1" d in_ch start] filts_nth[of i d in_ch start] assms
    by simp
qed

lemma final_ico_Some:
  assumes "1 \<le> k" "k \<le> n"
  shows "final_ico G cm n k =
     Some \<lparr>order = k, vertices = ico_vertices G k, triangles = ico_triangles G k,
           neighbor_indices = ring1 G k,
           down_indices = (if 2 \<le> k then Some (down_table G k) else None),
           up_indices = (if k \<le> n - 1 then Some (up_table G k) else None),
           conv_neighbor_indices = conv_table G cm k\<rparr>"
  using assms by (simp add: final_ico_def base_ico_def)

lemma final_ico_None: "k < 1 \<or> n < k \<Longrightarrow> final_ico G cm n k = None"
  by (auto simp: final_ico_def)

lemma down_block_at_ok:
  assumes "0 \<le> idx" "idx < d" "d \<le> n"
  shows "down_block_at (final_ico G cm n) (make_filts in_ch start d) (conv_class cm) n um idx =
           Inr (expected_down G cm um (make_filts in_ch start d) n (idx + 1))"
proof -
  have k: "1 \<le> n - idx" "n - idx \<le> n" using assms by simp_all
  show ?thesis
  proof (cases "idx = 0")
    case True
    then show ?thesis
      using assms k
      by (simp add: down_block_at_def list_get_filts final_ico_Some expected_down_def
          pool_mode_of_def)
  next
    case False
    then have k1: "1 \<le> n - idx + 1" "n - idx + 1 \<le> n" "2 \<le> n - idx + 1"
      using assms by simp_all
    have e: "n - (idx + 1) + 2 = n - idx + 1" "n - (idx + 1) + 1 = n - idx" by simp_all
    show ?thesis
      using assms False
      by (simp add: down_block_at_def list_get_filts final_ico_Some[OF k]
          final_ico_Some[OF k1(1,2)] k1(3) expected_down_def pool_mode_of_def e)
  qed
qed

lemma down_block_at_KeyError:
  assumes "0 \<le> idx" "idx < d" "hier (n - idx) = None"
  shows "down_block_at hier (make_filts in_ch start d) cl n um idx = Inl (KeyError (n - idx))"
  using assms by (simp add: down_block_at_def list_get_filts)

lemma UpBlock_init_ok:
  "valid_up_mode um \<Longrightarrow>
     UpBlock_init cl i oc cni nb (Some u) (Some dn) um =
       Inr \<lparr>ub_up_mode = um, ub_up = expected_up_layer um i oc nb u dn,
            double_conv = double_conv_layers cl i oc cni\<rparr>"
  by (auto simp: UpBlock_init_def valid_up_mode_def expected_up_layer_def)

lemma UpBlock_init_invalid:
  "\<not> valid_up_mode um \<Longrightarrow>
     UpBlock_init cl i oc cni nb u dn um = Inl (ValueError ''Invalid upsampling method.'')"
  by (simp add: UpBlock_init_def valid_up_mode_def)

lemma up_block_at_eq:
  assumes "1 \<le> c" "c \<le> d - 1" "d \<le> n"
  shows "up_block_at (final_ico G cm n) (make_filts in_ch start d) cl um (n - d + c) (d - c) =
           UpBlock_init cl (make_filts in_ch start d ! nat (d - c + 1))
             (make_filts in_ch start d ! nat (d - c)) (conv_table G cm (n - d + c + 1))
             (ring1 G (n - d + c + 1)) (Some (up_table G (n - d + c)))
             (Some (down_table G (n - d + c + 1))) um"
proof -
  have k: "1 \<le> n - d + c" "n - d + c \<le> n" "n - d + c \<le> n - 1" using assms by simp_all
  have k1: "1 \<le> n - d + c + 1" "n - d + c + 1 \<le> n" "2 \<le> n - d + c + 1"
    using assms by simp_all
  show ?thesis
    using assms
    by (simp add: up_block_at_def list_get_filts final_ico_Some[OF k(1,2)]
        final_ico_Some[OF k1(1,2)] k(3) k1(3))
qed

lemma up_block_at_ok:
  assumes "1 \<le> c" "c \<le> d - 1" "d \<le> n" "valid_up_mode um"
  shows "up_block_at (final_ico G cm n) (make_filts in_ch start d) (conv_class cm) um
           (n - d + c) (d - c) =
         Inr (expected_up G cm um (make_filts in_ch start d) n d c)"
  unfolding up_block_at_eq[OF assms(1-3)]
  by (simp add: UpBlock_init_ok[OF assms(4)] expected_up_def)

lemma up_block_at_invalid:
  assumes "1 \<le> c" "c \<le> d - 1" "d \<le> n" "\<not> valid_up_mode um"
  shows "up_block_at (final_ico G cm n) (make_filts in_ch start d) cl um (n - d + c) (d - c) =
         Inl (ValueError ''Invalid upsampling method.'')"
  unfolding up_block_at_eq[OF assms(1-3)]
  by (simp add: UpBlock_init_invalid[OF assms(4)])

lemma down_blocks_loop_ok:
  assumes "\<forall>idx\<in>set idxs. down_block_at hier fs cl n um idx = Inr (f idx)"
  shows "down_blocks_loop hier fs cl n um idxs dn ev =
           (Inr (\<lambda>j. if j - 1 \<in> set idxs then Some (f (j - 1)) else dn j),
            ev @ map (\<lambda>i. BuildDownBlock (i + 1)) idxs)"
  using assms
proof (induction idxs arbitrary: dn ev)
  case Nil
  then show ?case by simp
next
  case (Cons idx idxs)
  have step: "down_blocks_loop hier fs cl n um (idx # idxs) dn ev =
      down_blocks_loop hier fs cl n um idxs (dn(idx + 1 \<mapsto> f idx)) (ev @ [BuildDownBlock (idx + 1)])"
    using Cons.prems by simp
  have rest: "\<forall>idx\<in>set idxs. down_block_at hier fs cl n um idx = Inr (f idx)"
    using Cons.prems by simp
  show ?case
    unfolding step Cons.IH[OF rest] by (auto simp: fun_eq_iff)
qed

lemma down_blocks_loop_fail:
  assumes "idx \<in> set idxs" "down_block_at hier fs cl n um idx = Inl e"
  shows "\<exists>e' ev'. down_blocks_loop hier fs cl n um idxs dn ev = (Inl e', ev')"
  using assms
proof (induction idxs arbitrary: dn ev)
  case Nil
  then show ?case by simp
next
  case (Cons i idxs)
  show ?case
  proof (cases "down_block_at hier fs cl n um i")
    case (Inl a)
    then show ?thesis by simp
  next
    case (Inr b)
    then have "idx \<in> set idxs" using Cons.prems by auto
    from Cons.IH[OF this Cons.prems(2)] show ?thesis by (simp add: Inr)
  qed
qed

lemma up_blocks_loop_ok:
  assumes "\<forall>t<length idxs. up_block_at hier fs cl um (ord + int t) (idxs ! t) = Inr (f t)"
  shows "up_blocks_loop hier fs cl um idxs ord cnt ups ev =
           (Inr (\<lambda>c. if cnt \<le> c \<and> c < cnt + int (length idxs) then Some (f (nat (c - cnt)))
                      else ups c),
            ev @ map (\<lambda>t. BuildUpBlock (cnt + int t)) [0..<length idxs])"
  using assms
proof (induction idxs arbitrary: ord cnt ups ev f)
  case Nil
  then show ?case by (auto simp: fun_eq_iff)
next
  case (Cons idx idxs)
  have hd: "up_block_at hier fs cl um ord idx = Inr (f 0)"
    using Cons.prems[rule_format, of 0] by simp
  have rest: "\<forall>t<length idxs. up_block_at hier fs cl um (ord + 1 + int t) (idxs ! t)
                 = Inr ((f \<circ> Suc) t)"
  proof (intro allI impI)
    fix t assume "t < length idxs"
    then show "up_block_at hier fs cl um (ord + 1 + int t) (idxs ! t) = Inr ((f \<circ> Suc) t)"
      using Cons.prems[rule_format, of "Suc t"] by (simp add: add.commute add.left_commute)
  qed
  have step: "up_blocks_loop hier fs cl um (idx # idxs) ord cnt ups ev =
      up_blocks_loop hier fs cl um idxs (ord + 1) (cnt + 1) (ups(cnt \<mapsto> f 0))
        (ev @ [BuildUpBlock cnt])"
    by (simp add: hd)
  have ev: "map (\<lambda>t. BuildUpBlock (cnt + int t)) [0..<length (idx # idxs)] =
      BuildUpBlock cnt # map (\<lambda>t. BuildUpBlock (cnt + 1 + int t)) [0..<length idxs]"
    by (simp add: upt_conv_Cons map_Suc_upt[symmetric] add.commute add.left_commute
          del: upt_Suc)
  have fn: "(\<lambda>c. if cnt + 1 \<le> c \<and> c < cnt + 1 + int (length idxs)
                  then Some ((f \<circ> Suc) (nat (c - (cnt + 1)))) else (ups(cnt \<mapsto> f 0)) c) =
            (\<lambda>c. if cnt \<le> c \<and> c < cnt + int (length (idx # idxs)) then Some (f (nat (c - cnt)))
                  else ups c)"
  proof (rule ext)
    fix c
    show "(if cnt + 1 \<le> c \<and> c < cnt + 1 + int (length idxs)
                  then Some ((f \<circ> Suc) (nat (c - (cnt + 1)))) else (ups(cnt \<mapsto> f 0)) c) =
          (if cnt \<le> c \<and> c < cnt + int (length (idx # idxs)) then Some (f (nat (c - cnt)))
                  else ups c)"
    proof (cases "cnt + 1 \<le> c")
      case True
      then have "Suc (nat (c - (cnt + 1))) = nat (c - cnt)" by simp
      then show ?thesis using True by auto
    next
      case False
      then show ?thesis by auto
    qed
  qed
  show ?case
    unfolding step Cons.IH[OF rest] ev fn by simp
qed

lemma upto_as_map: "[a..a + int k - 1] = map (\<lambda>t. a + int t) [0..<k]"
proof (induction k)
  case 0
  then show ?case by simp
next
  case (Suc k)
  have "[a..a + int (Suc k) - 1] = [a..a + int k - 1] @ [a + int k]"
    using upto_rec2[of a "a + int k"] by simp
  then show ?case by (simp add: Suc)
qed

lemma rev_upto_nth:
  assumes "t < nat (d - 1)"
  shows "rev [1..d - 1] ! t = d - 1 - int t"
proof -
  have len: "length [1..d - 1] = nat (d - 1)" by simp
  have d: "1 < d" using assms by linarith
  have "rev [1..d - 1] ! t = [1..d - 1] ! (nat (d - 1) - Suc t)"
    using assms d by (simp add: rev_nth)
  also have "\<dots> = 1 + int (nat (d - 1) - Suc t)"
    using assms d by (intro nth_upto) linarith
  also have "\<dots> = d - 1 - int t" using assms d by linarith
  finally show ?thesis .
qed

lemma down_loop_final:
  assumes "1 \<le> d" "d \<le> n"
  shows "down_blocks_loop (final_ico G cm n) (make_filts in_ch start d) (conv_class cm) n um
           (range2 0 d) Map.empty ev =
         (Inr (\<lambda>j. if 1 \<le> j \<and> j \<le> d
                    then Some (expected_down G cm um (make_filts in_ch start d) n j) else None),
          ev @ map BuildDownBlock [1..d])"
proof -
  have a: "\<forall>idx\<in>set (range2 0 d).
      down_block_at (final_ico G cm n) (make_filts in_ch start d) (conv_class cm) n um idx =
      Inr (expected_down G cm um (make_filts in_ch start d) n (idx + 1))"
    using assms by (auto simp: range2_def intro!: down_block_at_ok)
  have ev: "map (\<lambda>i. BuildDownBlock (i + 1)) (range2 0 d) = map BuildDownBlock [1..d]"
  proof -
    have "[1..d] = map (\<lambda>i. i + 1) [0..d - 1]"
      using upto_as_map[of 1 "nat d"] upto_as_map[of 0 "nat d"] assms
      by (simp add: add.commute)
    then show ?thesis by (simp add: range2_def comp_def)
  qed
  show ?thesis
    unfolding down_blocks_loop_ok[OF a] ev
    by (auto simp: fun_eq_iff range2_def)
qed

lemma up_loop_positions:
  assumes "d \<le> n" "t < nat (d - 1)"
  shows "n - (d - 1) + int t = n - d + (1 + int t)" and "rev [1..d - 1] ! t = d - (1 + int t)"
    and "1 \<le> 1 + int t" and "1 + int t \<le> d - 1"
  using assms rev_upto_nth[OF assms(2)] by simp_all

lemma up_loop_final:
  assumes "1 \<le> d" "d \<le> n" "valid_up_mode um"
  shows "up_blocks_loop (final_ico G cm n) (make_filts in_ch start d) (conv_class cm) um
           (range_down (d - 1) 0) (n - (d - 1)) 1 Map.empty ev =
         (Inr (\<lambda>c. if 1 \<le> c \<and> c \<le> d - 1
                    then Some (expected_up G cm um (make_filts in_ch start d) n d c) else None),
          ev @ map BuildUpBlock [1..d - 1])"
proof -
  have len: "length (range_down (d - 1) 0) = nat (d - 1)"
    by (simp add: range_down_def)
  have a: "\<forall>t<length (range_down (d - 1) 0).
      up_block_at (final_ico G cm n) (make_filts in_ch start d) (conv_class cm) um
        (n - (d - 1) + int t) (range_down (d - 1) 0 ! t) =
      Inr (expected_up G cm um (make_filts in_ch start d) n d (1 + int t))"
  proof (intro allI impI)
    fix t assume "t < length (range_down (d - 1) 0)"
    then have t: "t < nat (d - 1)" by (simp add: len)
    note p = up_loop_positions[OF assms(2) t]
    show "up_block_at (final_ico G cm n) (make_filts in_ch start d) (conv_class cm) um
        (n - (d - 1) + int t) (range_down (d - 1) 0 ! t) =
      Inr (expected_up G cm um (make_filts in_ch start d) n d (1 + int t))"
      unfolding range_down_def p(1)
      using up_block_at_ok[OF p(3) p(4) assms(2) assms(3), of G cm in_ch start] p(2)
      by simp
  qed
  have ev: "map (\<lambda>t. BuildUpBlock (1 + int t)) [0..<nat (d - 1)] = map BuildUpBlock [1..d - 1]"
    using upto_as_map[of 1 "nat (d - 1)"] assms by (simp add: comp_def)
  have fn: "(\<lambda>c. if 1 \<le> c \<and> c < 1 + int (nat (d - 1))
                  then Some (expected_up G cm um (make_filts in_ch start d) n d
                               (1 + int (nat (c - 1))))
                  else None) =
            (\<lambda>c. if 1 \<le> c \<and> c \<le> d - 1
                  then Some (expected_up G cm um (make_filts in_ch start d) n d c) else None)"
    using assms by (auto simp: fun_eq_iff)
  show ?thesis
    unfolding up_blocks_loop_ok[OF a] len ev fn by simp
qed

lemma up_loop_invalid:
  assumes "2 \<le> d" "d \<le> n" "\<not> valid_up_mode um"
  shows "up_blocks_loop (final_ico G cm n) (make_filts in_ch start d) cl um
           (range_down (d - 1) 0) (n - (d - 1)) 1 ups ev =
         (Inl (ValueError ''Invalid upsampling method.''), ev)"
proof -
  have "[1..d - 1] = [1..d - 2] @ [d - 1]"
    using assms upto_rec2[of 1 "d - 1"] by simp
  then have r: "range_down (d - 1) 0 = (d - 1) # rev [1..d - 2]"
    by (simp add: range_down_def)
  have "up_block_at (final_ico G cm n) (make_filts in_ch start d) cl um (n - d + 1) (d - 1) =
         Inl (ValueError ''Invalid upsampling method.'')"
    using up_block_at_invalid[of 1 d n um G cm in_ch start cl] assms by simp
  moreover have "n - d + 1 = n - (d - 1)" by simp
  ultimately have e: "up_block_at (final_ico G cm n) (make_filts in_ch start d) cl um
      (n - (d - 1)) (d - 1) = Inl (ValueError ''Invalid upsampling method.'')"
    by metis
  show ?thesis
    unfolding r up_blocks_loop.simps e by simp
qed

lemma init_ok:
  assumes "valid_conv_mode cm" "1 \<le> d" "d \<le> n" "2 \<le> d \<longrightarrow> valid_up_mode um"
  shows "SphericalUNet_init G w b n in_ch out_ch d start cm um =
           (Inr (expected_unet G w b n in_ch out_ch d start cm um), init_events cm n d)"
proof -
  have cl: "(if cm = ''repa'' then IcoRePaConv else IcoDiNeConv) = conv_class cm"
    by (simp add: conv_class_def)
  have f1: "list_get (make_filts in_ch start d) 1 = Inr (make_filts in_ch start d ! 1)"
    using list_get_filts[of 1 d in_ch start] assms(2) by simp
  have up: "up_blocks_loop (final_ico G cm n) (make_filts in_ch start d) (conv_class cm) um
           (range_down (d - 1) 0) (n - (d - 1)) 1 Map.empty ev =
         (Inr (\<lambda>c. if 1 \<le> c \<and> c \<le> d - 1
                    then Some (expected_up G cm um (make_filts in_ch start d) n d c) else None),
          ev @ map BuildUpBlock [1..d - 1])" for ev
  proof (cases "2 \<le> d")
    case True
    then show ?thesis using up_loop_final[OF assms(2,3)] assms(4) by simp
  next
    case False
    then have "d = 1" using assms(2) by simp
    then show ?thesis by (simp add: range_down_def fun_eq_iff)
  qed
  show ?thesis
    unfolding SphericalUNet_init_def build_hierarchy_ok[OF assms(1)] prod.case sum.case Let_def cl
      down_loop_final[OF assms(2,3)] up f1
    by (simp add: expected_unet_def init_events_def)
qed

lemma init_invalid_conv_mode:
  assumes "\<not> valid_conv_mode cm" "1 \<le> n"
  shows "SphericalUNet_init G w b n in_ch out_ch d start cm um =
           (Inl (ValueError ''Unexptected convolution mode.''),
            [CallIcosahedron 1, CallNeighbors 1 1])"
proof -
  have r: "range2 1 (n + 1) = 1 # [2..n]"
    using assms(2) by (simp add: range2_def upto_rec1)
  show ?thesis
    unfolding SphericalUNet_init_def build_hierarchy_def r ico_loop_invalid[OF assms(1)]
    by simp
qed

lemma init_invalid_up_mode:
  assumes "valid_conv_mode cm" "2 \<le> d" "d \<le> n" "\<not> valid_up_mode um"
  shows "SphericalUNet_init G w b n in_ch out_ch d start cm um =
           (Inl (ValueError ''Invalid upsampling method.''),
            hierarchy_events cm n @ map BuildDownBlock [1..d])"
proof -
  have d1: "1 \<le> d" using assms(2) by simp
  show ?thesis
    unfolding SphericalUNet_init_def build_hierarchy_ok[OF assms(1)] prod.case sum.case Let_def
      conv_class_def[symmetric] down_loop_final[OF d1 assms(3)]
      up_loop_invalid[OF assms(2,3,4)]
    by simp
qed

lemma init_down_fail:
  assumes "build_hierarchy G n cm = (Inr hier, ev0)"
      and "down_blocks_loop hier (make_filts in_ch start d)
             (if cm = ''repa'' then IcoRePaConv else IcoDiNeConv) n um (range2 0 d) Map.empty ev0
           = (Inl e, ev')"
  shows "fst (SphericalUNet_init G w b n in_ch out_ch d start cm um) = Inl e"
  by (simp add: SphericalUNet_init_def assms Let_def)

lemma init_Inr_conditions:
  assumes "fst (SphericalUNet_init G w b n in_ch out_ch d start cm um) = Inr m"
  shows "valid_conv_mode cm" and "1 \<le> d" and "d \<le> n" and "2 \<le> d \<longrightarrow> valid_up_mode um"
proof -
  have d1: "1 \<le> d"
  proof (rule ccontr)
    assume "\<not> 1 \<le> d"
    then have "list_get (make_filts in_ch start d) 1 = Inl IndexError"
      by (simp add: list_get_filts_fail)
    then show False using assms
      by (auto simp: SphericalUNet_init_def Let_def split: prod.splits sum.splits)
  qed
  have first: "0 \<in> set (range2 0 d)" and last: "d - 1 \<in> set (range2 0 d)"
    using d1 by (simp_all add: range2_def)
  show cmv: "valid_conv_mode cm"
  proof (rule ccontr)
    assume inv: "\<not> valid_conv_mode cm"
    show False
    proof (cases "1 \<le> n")
      case True
      then show ?thesis using init_invalid_conv_mode[OF inv True] assms by simp
    next
      case False
      then have e: "range2 1 (n + 1) = []" "range_down n 1 = []" "range2 1 n = []"
        by (simp_all add: range2_def range_down_def)
      have bh: "build_hierarchy G n cm = (Inr Map.empty, [])"
        by (simp add: build_hierarchy_def e)
      have "down_block_at Map.empty (make_filts in_ch start d)
              (if cm = ''repa'' then IcoRePaConv else IcoDiNeConv) n um 0 = Inl (KeyError (n - 0))"
        by (rule down_block_at_KeyError) (use d1 in simp_all)
      from down_blocks_loop_fail[OF first this, of Map.empty "[]"]
      obtain e' ev' where "down_blocks_loop Map.empty (make_filts in_ch start d)
             (if cm = ''repa'' then IcoRePaConv else IcoDiNeConv) n um (range2 0 d) Map.empty []
           = (Inl e', ev')" by blast
      from init_down_fail[OF bh this] show ?thesis using assms by simp
    qed
  qed
  show "1 \<le> d" by (rule d1)
  show dn: "d \<le> n"
  proof (rule ccontr)
    assume "\<not> d \<le> n"
    then have "final_ico G cm n (n - (d - 1)) = None"
      by (simp add: final_ico_None)
    then have "down_block_at (final_ico G cm n) (make_filts in_ch start d)
              (if cm = ''repa'' then IcoRePaConv else IcoDiNeConv) n um (d - 1)
                 = Inl (KeyError (n - (d - 1)))"
      by (intro down_block_at_KeyError) (use d1 in simp_all)
    from down_blocks_loop_fail[OF last this, of Map.empty "hierarchy_events cm n"]
    obtain e' ev' where "down_blocks_loop (final_ico G cm n) (make_filts in_ch start d)
             (if cm = ''repa'' then IcoRePaConv else IcoDiNeConv) n um (range2 0 d) Map.empty
             (hierarchy_events cm n) = (Inl e', ev')" by blast
    from init_down_fail[OF build_hierarchy_ok[OF cmv] this] show False using assms by simp
  qed
  show "2 \<le> d \<longrightarrow> valid_up_mode um"
  proof (intro impI, rule ccontr)
    assume "2 \<le> d" "\<not> valid_up_mode um"
    from init_invalid_up_mode[OF cmv this(1) dn this(2)] assms
    show False by simp
  qed
qed

lemma init_Inr_expected:
  assumes "fst (SphericalUNet_init G w b n in_ch out_ch d start cm um) = Inr m"
  shows "m = expected_unet G w b n in_ch out_ch d start cm um"
  using init_ok[OF init_Inr_conditions[OF assms]] assms by simp

section \<open>Properties of the construction and of the input check\<close>

text \<open>
  C4. For a supported convolution mode, the hierarchy that the construction builds for
  \<open>in_order = n\<close> holds exactly the orders \<open>1, \<dots>, n\<close>, the record at key \<open>k\<close> being
  that of order \<open>k\<close>; its downsampling indices are set exactly when \<open>2 \<le> k\<close>, its
  upsampling indices exactly when \<open>k \<le> n - 1\<close>. Every network that the constructor
  returns holds this hierarchy.
\<close>

theorem hierarchy_records:
  assumes "valid_conv_mode cm"
  shows "\<exists>hier ev. build_hierarchy G n cm = (Inr hier, ev)
           \<and> dom hier = {1..n} \<and> card (dom hier) = nat n
           \<and> (\<forall>k. 1 \<le> k \<and> k \<le> n \<longrightarrow>
                 (\<exists>r. hier k = Some r \<and> order r = k
                    \<and> (down_indices r \<noteq> None \<longleftrightarrow> 2 \<le> k)
                    \<and> (up_indices r \<noteq> None \<longleftrightarrow> k \<le> n - 1)))
           \<and> (\<forall>w b ic oc d s um m.
                 fst (SphericalUNet_init G w b n ic oc d s cm um) = Inr m \<longrightarrow> ico m = hier)"
proof -
  have d: "dom (final_ico G cm n) = {1..n}"
    by (auto simp: final_ico_def dom_def)
  have r: "\<forall>k. 1 \<le> k \<and> k \<le> n \<longrightarrow>
         (\<exists>r. final_ico G cm n k = Some r \<and> order r = k
            \<and> (down_indices r \<noteq> None \<longleftrightarrow> 2 \<le> k)
            \<and> (up_indices r \<noteq> None \<longleftrightarrow> k \<le> n - 1))"
    by (simp add: final_ico_Some)
  have i: "\<forall>w b ic oc d s um m.
         fst (SphericalUNet_init G w b n ic oc d s cm um) = Inr m \<longrightarrow> ico m = final_ico G cm n"
    by (auto dest!: init_Inr_expected simp: expected_unet_def)
  show ?thesis
    using build_hierarchy_ok[OF assms, of G n] d r i by simp
qed

theorem hierarchy_records_witness:
  "\<exists>hier ev. build_hierarchy example_geometry 2 ''1ring'' = (Inr hier, ev)
     \<and> dom hier = {1..2} \<and> card (dom hier) = 2"
proof -
  have v: "valid_conv_mode ''1ring''" by (simp add: valid_conv_mode_def)
  from hierarchy_records [OF v, of example_geometry 2] show ?thesis
    by auto
qed

text \<open>
  C3, amended. With an unsupported convolution mode and \<open>in_order \<ge> 1\<close>, the
  construction raises the \<open>ValueError\<close> of the convolution mode in the first turn of its
  first loop: after the mesh and the depth-1 neighbours of order 1, and before any other
  computation. With a supported convolution mode, an unsupported upsampling mode and
  \<open>2 \<le> depth \<le> in_order\<close>, it raises the \<open>ValueError\<close> of the upsampling mode when it
  builds the first UpBlock: after the whole hierarchy and all DownBlocks.
\<close>

theorem invalid_modes_raise:
  "(\<not> valid_conv_mode cm \<and> 1 \<le> n \<longrightarrow>
      SphericalUNet_init G w b n ic oc d s cm um =
        (Inl (ValueError ''Unexptected convolution mode.''),
         [CallIcosahedron 1, CallNeighbors 1 1]))
   \<and> (valid_conv_mode cm \<and> \<not> valid_up_mode um \<and> 2 \<le> d \<and> d \<le> n \<longrightarrow>
      SphericalUNet_init G w b n ic oc d s cm um =
        (Inl (ValueError ''Invalid upsampling method.''),
         hierarchy_events cm n @ map BuildDownBlock [1..d]))"
  using init_invalid_conv_mode init_invalid_up_mode by blast

theorem invalid_modes_raise_witness:
  "SphericalUNet_init example_geometry (\<lambda>oc j. 0) (\<lambda>oc. 0) 2 2 4 2 8 ''3ring'' ''interp'' =
        (Inl (ValueError ''Unexptected convolution mode.''),
         [CallIcosahedron 1, CallNeighbors 1 1])
   \<and> SphericalUNet_init example_geometry (\<lambda>oc j. 0) (\<lambda>oc. 0) 2 2 4 2 8 ''1ring'' ''nearest'' =
        (Inl (ValueError ''Invalid upsampling method.''),
         hierarchy_events ''1ring'' 2 @ map BuildDownBlock [1..2])"
proof -
  have a: "\<not> valid_conv_mode ''3ring'' \<and> (1::int) \<le> 2"
    by (simp add: valid_conv_mode_def)
  have b: "valid_conv_mode ''1ring'' \<and> \<not> valid_up_mode ''nearest'' \<and> (2::int) \<le> 2 \<and> (2::int) \<le> 2"
    by (simp add: valid_conv_mode_def valid_up_mode_def)
  show ?thesis
    using invalid_modes_raise [of "''3ring''" 2 example_geometry "\<lambda>oc j. 0" "\<lambda>oc. 0" 2 4 2 8 "''interp''"]
      invalid_modes_raise [of "''1ring''" 2 example_geometry "\<lambda>oc j. 0" "\<lambda>oc. 0" 2 4 2 8 "''nearest''"]
      a b
    by blast
qed

text \<open>
  C3 as stated fails: with \<open>depth = 1\<close> no UpBlock is built and an unsupported
  upsampling mode is accepted; with \<open>in_order = 0\<close> the first loop has no turn and an
  unsupported convolution mode ends in a \<open>KeyError\<close>.
\<close>

theorem invalid_modes_counterexample:
  "fst (SphericalUNet_init example_geometry (\<lambda>oc j. 0) (\<lambda>oc. 0) 2 2 4 1 8 ''1ring'' ''nearest'')
     = Inr (expected_unet example_geometry (\<lambda>oc j. 0) (\<lambda>oc. 0) 2 2 4 1 8 ''1ring'' ''nearest'')
   \<and> \<not> valid_up_mode ''nearest''
   \<and> fst (SphericalUNet_init example_geometry (\<lambda>oc j. 0) (\<lambda>oc. 0) 0 2 4 1 8 ''3ring'' ''interp'')
     = Inl (KeyError 0)
   \<and> \<not> valid_conv_mode ''3ring''"
proof -
  have 1: "fst (SphericalUNet_init example_geometry (\<lambda>oc j. 0) (\<lambda>oc. 0) 2 2 4 1 8 ''1ring'' ''nearest'')
     = Inr (expected_unet example_geometry (\<lambda>oc j. 0) (\<lambda>oc. 0) 2 2 4 1 8 ''1ring'' ''nearest'')"
    by (subst init_ok) (simp_all add: valid_conv_mode_def)
  have 2: "fst (SphericalUNet_init example_geometry (\<lambda>oc j. 0) (\<lambda>oc. 0) 0 2 4 1 8 ''3ring'' ''interp'')
     = Inl (KeyError 0)"
    by (simp add: SphericalUNet_init_def build_hierarchy_def range2_def range_down_def
        down_block_at_def list_get_def make_filts_def)
  show ?thesis
    using 1 2 by (simp add: valid_conv_mode_def valid_up_mode_def)
qed

lemma encoder_loop_trace:
  "\<exists>tr'. snd (encoder_loop E dn idxs x enc pl tr) = tr @ tr'"
proof (induction idxs arbitrary: x enc pl tr)
  case Nil
  then show ?case by simp
next
  case (Cons idx idxs)
  show ?case
  proof (cases "dn idx")
    case None
    then show ?thesis by simp
  next
    case (Some blk)
    show ?thesis
    proof (cases "DownBlock_forward E blk x")
      case (Inl e)
      then show ?thesis by (simp add: Some)
    next
      case (Inr r)
      from Cons.IH[of "fst r" "enc @ [fst r]" "pl @ [snd r]" "tr @ [RunDownBlock idx]"]
      show ?thesis by (auto simp: Some Inr)
    qed
  qed
qed

lemma decoder_loop_trace:
  "\<exists>tr'. snd (decoder_loop E ups idxs x enc pl tr) = tr @ tr'"
proof (induction idxs arbitrary: x tr)
  case Nil
  then show ?case by simp
next
  case (Cons idx idxs)
  show ?case
  proof (cases "ups idx")
    case None
    then show ?thesis by simp
  next
    case (Some blk)
    show ?thesis
    proof (cases "list_get enc idx")
      case (Inl e)
      then show ?thesis by (simp add: Some)
    next
      case xup: (Inr x_up)
      show ?thesis
      proof (cases "list_get pl (idx - 1)")
        case (Inl e)
        then show ?thesis by (simp add: Some xup)
      next
        case mp: (Inr mpi)
        show ?thesis
        proof (cases "UpBlock_forward E blk x x_up mpi")
          case (Inl e)
          then show ?thesis by (simp add: Some xup mp)
        next
          case (Inr y)
          from Cons.IH[of y "tr @ [RunUpBlock idx]"]
          show ?thesis by (auto simp: Some xup mp Inr)
        qed
      qed
    qed
  qed
qed

lemma run_blocks_first_step:
  assumes "1 \<le> depth m" "down m 1 = Some blk"
  shows "\<exists>res tr. run_blocks E m x = (res, RunDownBlock 1 # tr)"
proof -
  have r: "range2 1 (depth m + 1) = 1 # [2..depth m]"
    using assms(1) by (simp add: range2_def upto_rec1)
  obtain res1 tr1 where e: "encoder_loop E (down m) (range2 1 (depth m + 1)) x [] [] [] = (res1, tr1)"
    by fastforce
  have "\<exists>tr'. tr1 = RunDownBlock 1 # tr'"
  proof (cases "DownBlock_forward E blk x")
    case (Inl err)
    then show ?thesis using e by (auto simp: r assms(2))
  next
    case (Inr p)
    from encoder_loop_trace[of E "down m" "[2..depth m]" "fst p" "[fst p]" "[snd p]" "[RunDownBlock 1]"]
    show ?thesis using e by (auto simp: r assms(2) Inr)
  qed
  then obtain tr' where tr1: "tr1 = RunDownBlock 1 # tr'" by blast
  show ?thesis
  proof (cases res1)
    case (Inl err)
    then show ?thesis by (simp add: run_blocks_def e tr1)
  next
    case (Inr p)
    obtain res2 tr2 where dl: "decoder_loop E (up m) (range2 1 (depth m)) (fst p) (rev (fst (snd p)))
             (rev (snd (snd p))) tr1 = (res2, tr2)"
      by fastforce
    from decoder_loop_trace[of E "up m" "range2 1 (depth m)" "fst p" "rev (fst (snd p))"
        "rev (snd (snd p))" tr1]
    obtain tr'' where "tr2 = tr1 @ tr''" by (auto simp: dl)
    then show ?thesis
      unfolding run_blocks_def e prod.case Inr sum.case dl
      by (cases res2) (simp_all add: tr1)
  qed
qed

text \<open>
  C10. For a network that the constructor returned and an input of three dimensions whose
  vertex count is \<open>number_of_ico_vertices in_order\<close>, whatever its channel count (so also
  one that differs from \<open>in_channels\<close>), the check does not reject the input: the forward
  pass is what the blocks make of it, and the first DownBlock is run.
\<close>

theorem check_ignores_channels:
  assumes init: "fst (SphericalUNet_init G w b n in_ch out_ch d start cm um) = Inr m"
      and sh: "shape x = [B, C, number_of_ico_vertices G n]"
  shows "forward E m x = run_blocks E m x
       \<and> (\<exists>res tr. forward E m x = (res, RunDownBlock 1 # tr))"
proof -
  have f: "forward E m x = run_blocks E m x"
    by (simp add: forward_def size_dim_def sh init_fields(1)[OF init])
  have m: "m = expected_unet G w b n in_ch out_ch d start cm um"
    by (rule init_Inr_expected[OF init])
  have d1: "1 \<le> d" by (rule init_Inr_conditions(2)[OF init])
  have "1 \<le> depth m" "down m 1 = Some (expected_down G cm um (make_filts in_ch start d) n 1)"
    using d1 by (simp_all add: m expected_unet_def)
  from run_blocks_first_step[OF this] show ?thesis
    by (simp add: f)
qed

theorem check_ignores_channels_witness:
  "\<exists>m res tr. fst (SphericalUNet_init example_geometry (\<lambda>oc j. 0) (\<lambda>oc. 0) 2 2 4 2 8
              ''1ring'' ''interp'') = Inr m
     \<and> in_channels m = 2
     \<and> forward example_engine m (zeros [10, 5, 162]) = (res, RunDownBlock 1 # tr)"
proof -
  obtain m where m: "fst (SphericalUNet_init example_geometry (\<lambda>oc j. 0) (\<lambda>oc. 0) 2 2 4 2 8
              ''1ring'' ''interp'') = Inr m"
    using example_init by blast
  have sh: "shape (zeros [10, 5, 162]) = [10, 5, number_of_ico_vertices example_geometry 2]"
    by (simp add: zeros_def example_geometry_def)
  from check_ignores_channels [OF m sh, of example_engine] init_fields(5)[OF m] m
  show ?thesis by blast
qed

section \<open>The shapes of a forward pass\<close>

lemma geometry_sizes:
  assumes "geometry_contract G"
  shows "length (ring1 G k) = number_of_ico_vertices G k"
    and "table_rows (conv_table G cm k) = number_of_ico_vertices G k"
    and "length (down_table G k) = number_of_ico_vertices G (k - 1)"
    and "number_of_ico_vertices G k + length (up_table G k) = number_of_ico_vertices G (k + 1)"
proof -
  have v: "length (ico_vertices G j) = number_of_ico_vertices G j" for j
    using assms by (simp add: geometry_contract_def ico_vertices_def)
  have nb: "length (neighbors G vs ts dd) = length vs" for vs ts dd
    using assms by (simp add: geometry_contract_def)
  have nr: "length (fst (neighbors_rec G vs ts)) = length vs" for vs ts
    using assms by (simp add: geometry_contract_def)
  have ds: "length (downsample G f c) = length c" for f c
    using assms by (simp add: geometry_contract_def)
  have ip: "length (interpolate G c f ts) = length f - length c" for c f ts
    using assms by (simp add: geometry_contract_def)
  have mono: "number_of_ico_vertices G k \<le> number_of_ico_vertices G (k + 1)"
    using assms by (simp add: geometry_contract_def)
  show "length (ring1 G k) = number_of_ico_vertices G k"
    by (simp add: ring1_def nb v)
  show "table_rows (conv_table G cm k) = number_of_ico_vertices G k"
    by (simp add: conv_table_def table_rows_def ring1_def nb nr v)
  show "length (down_table G k) = number_of_ico_vertices G (k - 1)"
    by (simp add: down_table_def ds v)
  show "number_of_ico_vertices G k + length (up_table G k) = number_of_ico_vertices G (k + 1)"
    using mono by (simp add: up_table_def ip v)
qed

lemma engine_conv:
  assumes "engine_contract E" "shape x = [B, i, table_rows t]"
  shows "\<exists>y. run_layer E (ConvLayer cl i oc t) x = Inr y \<and> shape y = [B, oc, table_rows t]"
  using assms by (simp add: engine_contract_def)

lemma engine_bn:
  assumes "engine_contract E" "shape x = [B, c, v]"
  shows "\<exists>y. run_layer E (BatchNorm1d c) x = Inr y \<and> shape y = [B, c, v]"
  using assms by (simp add: engine_contract_def)

lemma engine_relu:
  assumes "engine_contract E"
  shows "\<exists>y. run_layer E LeakyReLU x = Inr y \<and> shape y = shape x"
  using assms by (simp add: engine_contract_def)

lemma engine_pool:
  assumes "engine_contract E" "shape x = [B, c, length nb]"
  shows "\<exists>y mpi. run_pool E (IcoPool (Some nb) (Some dn) pm) x = Inr (y, mpi)
           \<and> shape y = [B, c, length dn] \<and> (pm = ''max'' \<longrightarrow> mpi \<noteq> None)"
  using assms by (simp add: engine_contract_def)

lemma engine_upsample:
  assumes "engine_contract E" "shape x = [B, i, v]"
  shows "\<exists>y. run_layer E (IcoUpSample i oc (Some u)) x = Inr y \<and> shape y = [B, oc, v + length u]"
    and "\<exists>y. run_layer E (IcoFixIndexUpSample i oc (Some u)) x = Inr y
           \<and> shape y = [B, oc, v + length u]"
  using assms by (simp_all add: engine_contract_def)

lemma engine_unpool:
  assumes "engine_contract E" "shape x = [B, i, length dn]"
  shows "\<exists>y. run_unpool E (IcoMaxIndexUpSample i oc nb (Some dn)) x (Some p) = Inr y
           \<and> shape y = [B, oc, length nb]"
  using assms by (simp add: engine_contract_def)

lemma engine_upconv:
  assumes "engine_contract E" "shape x = [B, i, length dn]"
  shows "\<exists>y. run_layer E (IcoUpConv i oc nb (Some dn)) x = Inr y \<and> shape y = [B, oc, length nb]"
  using assms by (simp add: engine_contract_def)

lemma double_conv_shape:
  assumes E: "engine_contract E" and sh: "shape x = [B, i, table_rows t]"
  shows "\<exists>y. Sequential E (double_conv_layers cl i oc t) x = Inr y
           \<and> shape y = [B, oc, table_rows t]"
proof -
  obtain y1 where y1: "run_layer E (ConvLayer cl i oc t) x = Inr y1"
      "shape y1 = [B, oc, table_rows t]"
    using engine_conv[OF E sh] by blast
  obtain y2 where y2: "run_layer E (BatchNorm1d oc) y1 = Inr y2" "shape y2 = [B, oc, table_rows t]"
    using engine_bn[OF E y1(2)] by blast
  obtain y3 where y3: "run_layer E LeakyReLU y2 = Inr y3" "shape y3 = [B, oc, table_rows t]"
    using engine_relu[OF E, of y2] y2(2) by auto
  obtain y4 where y4: "run_layer E (ConvLayer cl oc oc t) y3 = Inr y4"
      "shape y4 = [B, oc, table_rows t]"
    using engine_conv[OF E y3(2)] by blast
  obtain y5 where y5: "run_layer E (BatchNorm1d oc) y4 = Inr y5" "shape y5 = [B, oc, table_rows t]"
    using engine_bn[OF E y4(2)] by blast
  obtain y6 where y6: "run_layer E LeakyReLU y5 = Inr y6" "shape y6 = [B, oc, table_rows t]"
    using engine_relu[OF E, of y5] y5(2) by auto
  show ?thesis
    by (simp add: double_conv_layers_def y1 y2 y3 y4 y5 y6)
qed

lemma down_forward_first:
  assumes E: "engine_contract E" and G: "geometry_contract G"
      and sh: "shape x = [B, fs ! 0, number_of_ico_vertices G n]"
  shows "\<exists>y. DownBlock_forward E (expected_down G cm um fs n 1) x = Inr (y, None)
           \<and> shape y = [B, fs ! 1, number_of_ico_vertices G n]"
proof -
  have sh': "shape x = [B, fs ! 0, table_rows (conv_table G cm n)]"
    by (simp add: sh geometry_sizes(2)[OF G])
  from double_conv_shape[OF E sh', of "conv_class cm" "fs ! 1"]
  show ?thesis
    by (auto simp: DownBlock_forward_def expected_down_def DownBlock_init_def
        geometry_sizes(2)[OF G])
qed

lemma down_forward_next:
  assumes E: "engine_contract E" and G: "geometry_contract G"
      and j: "2 \<le> j"
      and sh: "shape x = [B, fs ! nat (j - 1), number_of_ico_vertices G (n - j + 2)]"
  shows "\<exists>y mpi. DownBlock_forward E (expected_down G cm um fs n j) x = Inr (y, mpi)
           \<and> shape y = [B, fs ! nat j, number_of_ico_vertices G (n - j + 1)]
           \<and> (um = ''maxpad'' \<longrightarrow> mpi \<noteq> None)"
proof -
  have e: "n - j + 2 - 1 = n - j + 1" by simp
  have sh1: "shape x = [B, fs ! nat (j - 1), length (ring1 G (n - j + 2))]"
    by (simp add: sh geometry_sizes(1)[OF G])
  obtain y1 mpi where p: "run_pool E (IcoPool (Some (ring1 G (n - j + 2)))
        (Some (down_table G (n - j + 2))) (pool_mode_of um)) x = Inr (y1, mpi)"
      and s1: "shape y1 = [B, fs ! nat (j - 1), length (down_table G (n - j + 2))]"
      and mp: "pool_mode_of um = ''max'' \<longrightarrow> mpi \<noteq> None"
    using engine_pool[OF E sh1] by blast
  have s1': "shape y1 = [B, fs ! nat (j - 1), table_rows (conv_table G cm (n - j + 1))]"
    by (simp add: s1 geometry_sizes(3)[OF G] geometry_sizes(2)[OF G] e)
  obtain y where y: "Sequential E (double_conv_layers (conv_class cm) (fs ! nat (j - 1))
        (fs ! nat j) (conv_table G cm (n - j + 1))) y1 = Inr y"
      and sy: "shape y = [B, fs ! nat j, table_rows (conv_table G cm (n - j + 1))]"
    using double_conv_shape[OF E s1'] by blast
  have "DownBlock_forward E (expected_down G cm um fs n j) x = Inr (y, mpi)"
    using j by (simp add: DownBlock_forward_def expected_down_def DownBlock_init_def p y)
  then show ?thesis
    using sy mp by (auto simp: geometry_sizes(2)[OF G] pool_mode_of_def)
qed

lemma torch_cat1_shape:
  assumes "shape a = [B, c1, v]" "shape b = [B, c2, v]"
  shows "\<exists>y. torch_cat1 a b = Inr y \<and> shape y = [B, c1 + c2, v]"
  using assms by (simp add: torch_cat1_def)

lemma up_forward_shape:
  assumes E: "engine_contract E" and G: "geometry_contract G"
      and um: "valid_up_mode um"
      and c: "1 \<le> c" "c \<le> d - 1"
      and dbl: "fs ! nat (d - c + 1) = 2 * fs ! nat (d - c)"
      and sh: "shape x = [B, fs ! nat (d - c + 1), number_of_ico_vertices G (n - d + c)]"
      and sk: "shape x_up = [B, fs ! nat (d - c), number_of_ico_vertices G (n - d + c + 1)]"
      and mp: "um = ''maxpad'' \<longrightarrow> mpi \<noteq> None"
  shows "\<exists>y. UpBlock_forward E (expected_up G cm um fs n d c) x x_up mpi = Inr y
           \<and> shape y = [B, fs ! nat (d - c), number_of_ico_vertices G (n - d + c + 1)]"
proof -
  let ?i = "fs ! nat (d - c + 1)" and ?oc = "fs ! nat (d - c)"
  let ?ord = "n - d + c"
  let ?V = "number_of_ico_vertices G (?ord + 1)"
  have e: "?ord + 1 - 1 = ?ord" by simp
  have shd: "shape x = [B, ?i, length (down_table G (?ord + 1))]"
    by (simp add: sh geometry_sizes(3)[OF G])
  have up: "\<exists>y1. (if um = ''maxpad''
                   then run_unpool E (expected_up_layer um ?i ?oc (ring1 G (?ord + 1))
                          (up_table G ?ord) (down_table G (?ord + 1))) x mpi
                   else run_layer E (expected_up_layer um ?i ?oc (ring1 G (?ord + 1))
                          (up_table G ?ord) (down_table G (?ord + 1))) x) = Inr y1
                \<and> shape y1 = [B, ?oc, ?V]"
  proof -
    consider "um = ''interp''" | "um = ''zeropad''" | "um = ''maxpad''" | "um = ''transpose''"
      using um by (auto simp: valid_up_mode_def)
    then show ?thesis
    proof cases
      case 1
      then show ?thesis
        using engine_upsample(1)[OF E sh, of ?oc "up_table G ?ord"]
        by (simp add: expected_up_layer_def geometry_sizes(4)[OF G])
    next
      case 2
      then show ?thesis
        using engine_upsample(2)[OF E sh, of ?oc "up_table G ?ord"]
        by (simp add: expected_up_layer_def geometry_sizes(4)[OF G])
    next
      case 3
      then obtain p where p: "mpi = Some p" using mp by auto
      show ?thesis
        using engine_unpool[OF E shd, of ?oc "ring1 G (?ord + 1)" p] 3
        by (simp add: expected_up_layer_def geometry_sizes(1)[OF G] p)
    next
      case 4
      then show ?thesis
        using engine_upconv[OF E shd, of ?oc "ring1 G (?ord + 1)"]
        by (simp add: expected_up_layer_def geometry_sizes(1)[OF G])
    qed
  qed
  then obtain y1 where y1: "(if um = ''maxpad''
                   then run_unpool E (expected_up_layer um ?i ?oc (ring1 G (?ord + 1))
                          (up_table G ?ord) (down_table G (?ord + 1))) x mpi
                   else run_layer E (expected_up_layer um ?i ?oc (ring1 G (?ord + 1))
                          (up_table G ?ord) (down_table G (?ord + 1))) x) = Inr y1"
      and s1: "shape y1 = [B, ?oc, ?V]" by blast
  obtain y2 where y2: "torch_cat1 y1 x_up = Inr y2" and s2: "shape y2 = [B, ?oc + ?oc, ?V]"
    using torch_cat1_shape[OF s1 sk] by blast
  have s2': "shape y2 = [B, ?i, table_rows (conv_table G cm (?ord + 1))]"
    by (simp add: s2 dbl geometry_sizes(2)[OF G])
  obtain y where y: "Sequential E (double_conv_layers (conv_class cm) ?i ?oc
        (conv_table G cm (?ord + 1))) y2 = Inr y"
      and sy: "shape y = [B, ?oc, table_rows (conv_table G cm (?ord + 1))]"
    using double_conv_shape[OF E s2'] by blast
  have "UpBlock_forward E (expected_up G cm um fs n d c) x x_up mpi = Inr y"
    using y1 y2 y by (auto simp: UpBlock_forward_def expected_up_def split: if_splits)
  then show ?thesis
    using sy by (simp add: geometry_sizes(2)[OF G])
qed

lemma encoder_steps:
  assumes E: "engine_contract E" and G: "geometry_contract G"
      and dn: "dn = (\<lambda>j. if 1 \<le> j \<and> j \<le> d then Some (expected_down G cm um fs n j) else None)"
      and k: "k = nat (d + 1 - j)"
      and j: "2 \<le> j" "j \<le> d + 1"
      and sh: "shape x = [B, fs ! nat (j - 1), number_of_ico_vertices G (n - j + 2)]"
      and le: "length enc = nat (j - 1)" and lp: "length pl = nat (j - 1)"
      and es: "\<forall>i. 1 \<le> i \<and> i < j \<longrightarrow>
                 shape (enc ! nat (i - 1)) = [B, fs ! nat i, number_of_ico_vertices G (n - i + 1)]"
      and ps: "um = ''maxpad'' \<longrightarrow> (\<forall>i. 2 \<le> i \<and> i < j \<longrightarrow> pl ! nat (i - 1) \<noteq> None)"
  shows "\<exists>x' enc' pl' tr'.
           encoder_loop E dn [j..d] x enc pl tr = (Inr (x', enc', pl'), tr')
         \<and> shape x' = [B, fs ! nat d, number_of_ico_vertices G (n - d + 1)]
         \<and> length enc' = nat d \<and> length pl' = nat d
         \<and> (\<forall>i. 1 \<le> i \<and> i \<le> d \<longrightarrow>
                shape (enc' ! nat (i - 1)) = [B, fs ! nat i, number_of_ico_vertices G (n - i + 1)])
         \<and> (um = ''maxpad'' \<longrightarrow> (\<forall>i. 2 \<le> i \<and> i \<le> d \<longrightarrow> pl' ! nat (i - 1) \<noteq> None))"
  using k j sh le lp es ps
proof (induction k arbitrary: j x enc pl tr)
  case 0
  then have jd: "j = d + 1" by simp
  have e: "[j..d] = []" by (simp add: jd)
  have a: "n - j + 2 = n - d + 1" using jd by linarith
  have b: "nat (j - 1) = nat d" using jd by simp
  have sh0: "shape x = [B, fs ! nat d, number_of_ico_vertices G (n - d + 1)]"
    using "0.prems"(4) unfolding a b .
  have le0: "length enc = nat d" and lp0: "length pl = nat d"
    using "0.prems"(5,6) unfolding b by simp_all
  have es0: "\<forall>i. 1 \<le> i \<and> i \<le> d \<longrightarrow>
      shape (enc ! nat (i - 1)) = [B, fs ! nat i, number_of_ico_vertices G (n - i + 1)]"
  proof (intro allI impI)
    fix i assume "1 \<le> i \<and> i \<le> d"
    then have "1 \<le> i \<and> i < j" using jd by simp
    then show "shape (enc ! nat (i - 1)) = [B, fs ! nat i, number_of_ico_vertices G (n - i + 1)]"
      using "0.prems"(7) by blast
  qed
  have ps0: "um = ''maxpad'' \<longrightarrow> (\<forall>i. 2 \<le> i \<and> i \<le> d \<longrightarrow> pl ! nat (i - 1) \<noteq> None)"
  proof (intro allI impI)
    fix i assume um: "um = ''maxpad''" and "2 \<le> i \<and> i \<le> d"
    then have "2 \<le> i \<and> i < j" using jd by simp
    then show "pl ! nat (i - 1) \<noteq> None"
      using "0.prems"(8) um by blast
  qed
  have run: "encoder_loop E dn [j..d] x enc pl tr = (Inr (x, enc, pl), tr)"
    unfolding e by simp
  show ?case
    by (rule exI[of _ x], rule exI[of _ enc], rule exI[of _ pl], rule exI[of _ tr])
       (intro conjI run sh0 le0 lp0 es0 ps0)
next
  case (Suc k)
  then have jd: "j \<le> d" and k': "k = nat (d + 1 - (j + 1))" by simp_all
  have j2: "2 \<le> j" by (rule Suc.prems(2))
  have e: "[j..d] = j # [j + 1..d]" using jd by (simp add: upto_rec1)
  have blk: "dn j = Some (expected_down G cm um fs n j)"
    using j2 jd by (simp add: dn)
  from down_forward_next[OF E G j2 Suc.prems(4)]
  obtain y where "\<exists>mpi. DownBlock_forward E (expected_down G cm um fs n j) x = Inr (y, mpi)
      \<and> shape y = [B, fs ! nat j, number_of_ico_vertices G (n - j + 1)]
      \<and> (um = ''maxpad'' \<longrightarrow> mpi \<noteq> None)" ..
  then obtain mpi where ymp: "DownBlock_forward E (expected_down G cm um fs n j) x = Inr (y, mpi)
      \<and> shape y = [B, fs ! nat j, number_of_ico_vertices G (n - j + 1)]
      \<and> (um = ''maxpad'' \<longrightarrow> mpi \<noteq> None)" ..
  note f = ymp[THEN conjunct1] and sy = ymp[THEN conjunct2, THEN conjunct1]
    and mp = ymp[THEN conjunct2, THEN conjunct2]
  have step: "encoder_loop E dn [j..d] x enc pl tr =
      encoder_loop E dn [j + 1..d] y (enc @ [y]) (pl @ [mpi]) (tr @ [RunDownBlock j])"
    by (simp add: e blk f)
  have nj: "nat (j + 1 - 1) = Suc (nat (j - 1))" "nat (j + 1 - 1) = nat j" using j2 by simp_all
  have p1: "2 \<le> j + 1" "j + 1 \<le> d + 1" using j2 jd by simp_all
  have p2: "shape y = [B, fs ! nat (j + 1 - 1), number_of_ico_vertices G (n - (j + 1) + 2)]"
  proof -
    have e1: "n - (j + 1) + 2 = n - j + 1" and e2: "j + 1 - 1 = j" by simp_all
    show ?thesis unfolding e1 e2 by (rule sy)
  qed
  have p3: "length (enc @ [y]) = nat (j + 1 - 1)" "length (pl @ [mpi]) = nat (j + 1 - 1)"
    using Suc.prems(5,6) nj(1) by simp_all
  have p4: "\<forall>i. 1 \<le> i \<and> i < j + 1 \<longrightarrow>
       shape ((enc @ [y]) ! nat (i - 1)) = [B, fs ! nat i, number_of_ico_vertices G (n - i + 1)]"
  proof (intro allI impI)
    fix i assume i: "1 \<le> i \<and> i < j + 1"
    show "shape ((enc @ [y]) ! nat (i - 1)) = [B, fs ! nat i, number_of_ico_vertices G (n - i + 1)]"
    proof (cases "i < j")
      case True
      then have "nat (i - 1) < length enc" using i Suc.prems(5) by simp
      then show ?thesis using Suc.prems(7) i True by (simp add: nth_append)
    next
      case False
      then have "i = j" using i by simp
      then show ?thesis using Suc.prems(5) sy by (simp add: nth_append)
    qed
  qed
  have p5: "um = ''maxpad'' \<longrightarrow> (\<forall>i. 2 \<le> i \<and> i < j + 1 \<longrightarrow> (pl @ [mpi]) ! nat (i - 1) \<noteq> None)"
  proof (intro allI impI)
    fix i assume um: "um = ''maxpad''" and i: "2 \<le> i \<and> i < j + 1"
    show "(pl @ [mpi]) ! nat (i - 1) \<noteq> None"
    proof (cases "i < j")
      case True
      then have "nat (i - 1) < length pl" using i Suc.prems(6) by simp
      then show ?thesis using Suc.prems(8) um i True by (simp add: nth_append)
    next
      case False
      then have "i = j" using i by simp
      then show ?thesis using Suc.prems(6) mp um by (simp add: nth_append)
    qed
  qed
  show ?case
    unfolding step
    by (rule Suc.IH[OF k' p1 p2 p3 p4 p5])
qed

lemma list_get_nat:
  "0 \<le> i \<Longrightarrow> i < int (length xs) \<Longrightarrow> list_get xs i = Inr (xs ! nat i)"
  by (simp add: list_get_def)

lemma decoder_steps:
  assumes E: "engine_contract E" and G: "geometry_contract G"
      and um: "2 \<le> d \<longrightarrow> valid_up_mode um"
      and ups: "ups = (\<lambda>c. if 1 \<le> c \<and> c \<le> d - 1
                            then Some (expected_up G cm um fs n d c) else None)"
      and dbl: "\<forall>i. 1 \<le> i \<and> i < d \<longrightarrow> fs ! nat (i + 1) = 2 * fs ! nat i"
      and le: "length encr = nat d" and lp: "length plr = nat d"
      and es: "\<forall>c. 1 \<le> c \<and> c \<le> d - 1 \<longrightarrow>
                 shape (encr ! nat c) = [B, fs ! nat (d - c), number_of_ico_vertices G (n - d + c + 1)]"
      and ps: "um = ''maxpad'' \<longrightarrow> (\<forall>c. 1 \<le> c \<and> c \<le> d - 1 \<longrightarrow> plr ! nat (c - 1) \<noteq> None)"
      and k: "k = nat (d - c)"
      and c: "1 \<le> c" "c \<le> d"
      and sh: "shape x = [B, fs ! nat (d - c + 1), number_of_ico_vertices G (n - d + c)]"
  shows "\<exists>y tr'. decoder_loop E ups [c..d - 1] x encr plr tr = (Inr y, tr')
           \<and> shape y = [B, fs ! 1, number_of_ico_vertices G n]"
  using k c sh
proof (induction k arbitrary: c x tr)
  case 0
  then have cd: "c = d" by simp
  have e: "[c..d - 1] = []" by (simp add: cd)
  show ?case using "0.prems"(4) by (simp add: e cd)
next
  case (Suc k)
  then have cd: "c \<le> d - 1" and k': "k = nat (d - (c + 1))" by simp_all
  have c1: "1 \<le> c" by (rule Suc.prems(2))
  have d2: "2 \<le> d" using c1 cd by simp
  have v: "valid_up_mode um" using um d2 by simp
  have e: "[c..d - 1] = c # [c + 1..d - 1]" using cd by (simp add: upto_rec1)
  have blk: "ups c = Some (expected_up G cm um fs n d c)"
    using c1 cd by (simp add: ups)
  have xu: "list_get encr c = Inr (encr ! nat c)"
    using c1 cd le by (intro list_get_nat) simp_all
  have mpi: "list_get plr (c - 1) = Inr (plr ! nat (c - 1))"
    using c1 cd lp by (intro list_get_nat) simp_all
  have d': "fs ! nat (d - c + 1) = 2 * fs ! nat (d - c)"
    using dbl[rule_format, of "d - c"] c1 cd by simp
  have sk: "shape (encr ! nat c) = [B, fs ! nat (d - c), number_of_ico_vertices G (n - d + c + 1)]"
    using es c1 cd by simp
  have mp: "um = ''maxpad'' \<longrightarrow> plr ! nat (c - 1) \<noteq> None"
    using ps c1 cd by simp
  obtain y where f: "UpBlock_forward E (expected_up G cm um fs n d c) x (encr ! nat c)
        (plr ! nat (c - 1)) = Inr y"
      and sy: "shape y = [B, fs ! nat (d - c), number_of_ico_vertices G (n - d + c + 1)]"
    using up_forward_shape[OF E G v c1 cd d' Suc.prems(4) sk mp] by blast
  have step: "decoder_loop E ups [c..d - 1] x encr plr tr =
      decoder_loop E ups [c + 1..d - 1] y encr plr (tr @ [RunUpBlock c])"
    by (simp add: e blk xu mpi f)
  have p1: "1 \<le> c + 1" "c + 1 \<le> d" using c1 cd by simp_all
  have p2: "shape y = [B, fs ! nat (d - (c + 1) + 1), number_of_ico_vertices G (n - d + (c + 1))]"
  proof -
    have e1: "d - (c + 1) + 1 = d - c" and e2: "n - d + (c + 1) = n - d + c + 1"
      by simp_all
    show ?thesis unfolding e1 e2 by (rule sy)
  qed
  show ?case
    unfolding step by (rule Suc.IH[OF k' p1 p2])
qed

lemma rev_nth_int:
  assumes "length xs = nat d" "0 \<le> c" "c < d"
  shows "rev xs ! nat c = xs ! nat (d - c - 1)"
proof -
  have "nat c < length xs" using assms by simp
  then have "rev xs ! nat c = xs ! (length xs - Suc (nat c))" by (rule rev_nth)
  moreover have "length xs - Suc (nat c) = nat (d - c - 1)" using assms by simp
  ultimately show ?thesis by simp
qed

lemma run_blocks_shape:
  assumes E: "engine_contract E" and G: "geometry_contract G"
      and d1: "1 \<le> d" and dn: "d \<le> n" and um: "2 \<le> d \<longrightarrow> valid_up_mode um"
      and sh: "shape x = [B, in_ch, number_of_ico_vertices G n]"
  shows "\<exists>y tr. run_blocks E (expected_unet G w b n in_ch out_ch d start cm um) x = (Inr y, tr)
           \<and> shape y = [B, out_ch, number_of_ico_vertices G n]"
proof -
  let ?m = "expected_unet G w b n in_ch out_ch d start cm um"
  let ?fs = "make_filts in_ch start d"
  let ?nv = "number_of_ico_vertices G"
  have dm: "depth ?m = d" and fm: "filts ?m = ?fs" and ivm: "in_vertices ?m = ?nv n"
    and ocm: "out_channels ?m = out_ch"
    and fcm: "in_features (fc ?m) = ?fs ! 1" "out_features (fc ?m) = out_ch"
    and downm: "down ?m = (\<lambda>j. if 1 \<le> j \<and> j \<le> d
                  then Some (expected_down G cm um ?fs n j) else None)"
    and upm: "up ?m = (\<lambda>c. if 1 \<le> c \<and> c \<le> d - 1
                  then Some (expected_up G cm um ?fs n d c) else None)"
    by (simp_all add: expected_unet_def)
  have fs0: "?fs ! 0 = in_ch" by (simp add: make_filts_def)
  have r1: "range2 1 (d + 1) = 1 # [2..d]" using d1 by (simp add: range2_def upto_rec1)
  have r2: "range2 1 d = [1..d - 1]" by (simp add: range2_def)
  have sh0: "shape x = [B, ?fs ! 0, ?nv n]" by (simp add: sh fs0)
  obtain y1 where f1: "DownBlock_forward E (expected_down G cm um ?fs n 1) x = Inr (y1, None)"
      and s1: "shape y1 = [B, ?fs ! 1, ?nv n]"
    using down_forward_first[OF E G sh0] by blast
  have blk1: "down ?m 1 = Some (expected_down G cm um ?fs n 1)"
    using d1 by (simp add: downm)
  have step1: "encoder_loop E (down ?m) (range2 1 (d + 1)) x [] [] [] =
      encoder_loop E (down ?m) [2..d] y1 [y1] [None] [RunDownBlock 1]"
    unfolding r1 by (simp add: blk1 f1)
  have a1: "(2::int) \<le> 2" "2 \<le> d + 1" using d1 by simp_all
  have a2: "shape y1 = [B, ?fs ! nat (2 - 1), ?nv (n - 2 + 2)]" by (simp add: s1)
  have a3: "length [y1] = nat (2 - 1)" "length [None :: tensor option] = nat (2 - 1)"
    by simp_all
  have a4: "\<forall>i. 1 \<le> i \<and> i < 2 \<longrightarrow> shape ([y1] ! nat (i - 1)) = [B, ?fs ! nat i, ?nv (n - i + 1)]"
  proof (intro allI impI)
    fix i :: int assume "1 \<le> i \<and> i < 2"
    then have "i = 1" by simp
    then show "shape ([y1] ! nat (i - 1)) = [B, ?fs ! nat i, ?nv (n - i + 1)]"
      by (simp add: s1)
  qed
  have a5: "um = ''maxpad'' \<longrightarrow>
      (\<forall>i. 2 \<le> i \<and> i < 2 \<longrightarrow> [None :: tensor option] ! nat (i - 1) \<noteq> None)"
    by simp
  from encoder_steps[OF E G downm refl a1 a2 a3 a4 a5, of "[RunDownBlock 1]"]
  obtain x1 where "\<exists>enc pl tr1.
         encoder_loop E (down ?m) [2..d] y1 [y1] [None] [RunDownBlock 1] = (Inr (x1, enc, pl), tr1)
         \<and> shape x1 = [B, ?fs ! nat d, ?nv (n - d + 1)]
         \<and> length enc = nat d \<and> length pl = nat d
         \<and> (\<forall>i. 1 \<le> i \<and> i \<le> d \<longrightarrow> shape (enc ! nat (i - 1)) = [B, ?fs ! nat i, ?nv (n - i + 1)])
         \<and> (um = ''maxpad'' \<longrightarrow> (\<forall>i. 2 \<le> i \<and> i \<le> d \<longrightarrow> pl ! nat (i - 1) \<noteq> None))" ..
  then obtain enc where "\<exists>pl tr1.
         encoder_loop E (down ?m) [2..d] y1 [y1] [None] [RunDownBlock 1] = (Inr (x1, enc, pl), tr1)
         \<and> shape x1 = [B, ?fs ! nat d, ?nv (n - d + 1)]
         \<and> length enc = nat d \<and> length pl = nat d
         \<and> (\<forall>i. 1 \<le> i \<and> i \<le> d \<longrightarrow> shape (enc ! nat (i - 1)) = [B, ?fs ! nat i, ?nv (n - i + 1)])
         \<and> (um = ''maxpad'' \<longrightarrow> (\<forall>i. 2 \<le> i \<and> i \<le> d \<longrightarrow> pl ! nat (i - 1) \<noteq> None))" ..
  then obtain pl where "\<exists>tr1.
         encoder_loop E (down ?m) [2..d] y1 [y1] [None] [RunDownBlock 1] = (Inr (x1, enc, pl), tr1)
         \<and> shape x1 = [B, ?fs ! nat d, ?nv (n - d + 1)]
         \<and> length enc = nat d \<and> length pl = nat d
         \<and> (\<forall>i. 1 \<le> i \<and> i \<le> d \<longrightarrow> shape (enc ! nat (i - 1)) = [B, ?fs ! nat i, ?nv (n - i + 1)])
         \<and> (um = ''maxpad'' \<longrightarrow> (\<forall>i. 2 \<le> i \<and> i \<le> d \<longrightarrow> pl ! nat (i - 1) \<noteq> None))" ..
  then obtain tr1 where enc_all:
        "encoder_loop E (down ?m) [2..d] y1 [y1] [None] [RunDownBlock 1] = (Inr (x1, enc, pl), tr1)
         \<and> shape x1 = [B, ?fs ! nat d, ?nv (n - d + 1)]
         \<and> length enc = nat d \<and> length pl = nat d
         \<and> (\<forall>i. 1 \<le> i \<and> i \<le> d \<longrightarrow> shape (enc ! nat (i - 1)) = [B, ?fs ! nat i, ?nv (n - i + 1)])
         \<and> (um = ''maxpad'' \<longrightarrow> (\<forall>i. 2 \<le> i \<and> i \<le> d \<longrightarrow> pl ! nat (i - 1) \<noteq> None))" ..
  note el = enc_all[THEN conjunct1]
    and sx1 = enc_all[THEN conjunct2, THEN conjunct1]
    and lenc = enc_all[THEN conjunct2, THEN conjunct2, THEN conjunct1]
    and lpl = enc_all[THEN conjunct2, THEN conjunct2, THEN conjunct2, THEN conjunct1]
    and es = enc_all[THEN conjunct2, THEN conjunct2, THEN conjunct2, THEN conjunct2, THEN conjunct1]
    and ps = enc_all[THEN conjunct2, THEN conjunct2, THEN conjunct2, THEN conjunct2, THEN conjunct2]
  have b1: "\<forall>i. 1 \<le> i \<and> i < d \<longrightarrow> ?fs ! nat (i + 1) = 2 * ?fs ! nat i"
    by (simp add: filts_double)
  have b2: "length (rev enc) = nat d" "length (rev pl) = nat d"
    by (simp_all add: lenc lpl)
  have b3: "\<forall>c. 1 \<le> c \<and> c \<le> d - 1 \<longrightarrow>
      shape (rev enc ! nat c) = [B, ?fs ! nat (d - c), ?nv (n - d + c + 1)]"
  proof (intro allI impI)
    fix c assume c: "1 \<le> c \<and> c \<le> d - 1"
    have "rev enc ! nat c = enc ! nat (d - c - 1)"
      using c by (intro rev_nth_int[OF lenc]) simp_all
    moreover have "shape (enc ! nat (d - c - 1)) = [B, ?fs ! nat (d - c), ?nv (n - (d - c) + 1)]"
      using es[rule_format, of "d - c"] c by simp
    moreover have "n - (d - c) + 1 = n - d + c + 1" by simp
    ultimately show "shape (rev enc ! nat c) = [B, ?fs ! nat (d - c), ?nv (n - d + c + 1)]"
      by simp
  qed
  have b4: "um = ''maxpad'' \<longrightarrow> (\<forall>c. 1 \<le> c \<and> c \<le> d - 1 \<longrightarrow> rev pl ! nat (c - 1) \<noteq> None)"
  proof (intro allI impI)
    fix c assume m: "um = ''maxpad''" and c: "1 \<le> c \<and> c \<le> d - 1"
    have "rev pl ! nat (c - 1) = pl ! nat (d - (c - 1) - 1)"
      using c by (intro rev_nth_int[OF lpl]) simp_all
    moreover have "d - (c - 1) - 1 = (d - c + 1) - 1" by simp
    moreover have "pl ! nat ((d - c + 1) - 1) \<noteq> None"
      using ps[rule_format, OF m, of "d - c + 1"] c by simp
    ultimately show "rev pl ! nat (c - 1) \<noteq> None" by simp
  qed
  have b5: "(1::int) \<le> 1" "1 \<le> d" using d1 by simp_all
  have b6: "shape x1 = [B, ?fs ! nat (d - 1 + 1), ?nv (n - d + 1)]"
    by (simp add: sx1)
  from decoder_steps[OF E G um upm b1 b2 b3 b4 refl b5 b6, of tr1]
  obtain y2 tr2 where dl: "decoder_loop E (up ?m) [1..d - 1] x1 (rev enc) (rev pl) tr1 = (Inr y2, tr2)"
      and s2: "shape y2 = [B, ?fs ! 1, ?nv n]"
    by blast
  have lg: "list_get (filts ?m) 1 = Inr (?fs ! 1)"
    using list_get_filts[of 1 d in_ch start] d1 by (simp add: fm)
  have s2': "shape y2 = [B, ?fs ! 1, in_vertices ?m]" by (simp add: s2 ivm)
  have fcs: "\<exists>y. fc_stage ?m y2 = Inr y \<and> shape y = [B, out_ch, ?nv n]"
    unfolding fc_stage_data[OF s2' refl lg fcm(1)] 
    using fc_stage_data[OF s2' refl lg fcm(1)] by (simp add: fcm(2) ocm ivm)
  then obtain y where y: "fc_stage ?m y2 = Inr y" and sy: "shape y = [B, out_ch, ?nv n]"
    by blast
  have "run_blocks E ?m x = (Inr y, tr2 @ [RunFC])"
    unfolding run_blocks_def dm step1 el prod.case sum.case fst_conv snd_conv r2 dl y ..
  then show ?thesis using sy by blast
qed

lemma example_geometry_contract: "geometry_contract example_geometry"
  by (auto simp: geometry_contract_def example_geometry_def intro!: power_increasing nat_mono)

lemma example_engine_contract: "engine_contract example_engine"
  by (simp add: engine_contract_def example_engine_def zeros_def)

text \<open>
  C2. For a network that the constructor returned and an input of shape
  \<open>(batch, in_channels, V)\<close> with \<open>V = number_of_ico_vertices in_order\<close>, the forward
  pass returns a tensor of shape \<open>(batch, out_channels, V)\<close>, provided the geometric
  primitives and the layers honour the contracts of the specification.
\<close>

theorem forward_output_shape:
  assumes G: "geometry_contract G" and E: "engine_contract E"
      and init: "fst (SphericalUNet_init G w b n in_ch out_ch d start cm um) = Inr m"
      and sh: "shape x = [B, in_ch, number_of_ico_vertices G n]"
  shows "\<exists>y tr. forward E m x = (Inr y, tr)
           \<and> shape y = [B, out_ch, number_of_ico_vertices G n]"
proof -
  have m: "m = expected_unet G w b n in_ch out_ch d start cm um"
    by (rule init_Inr_expected[OF init])
  note c = init_Inr_conditions[OF init]
  have f: "forward E m x = run_blocks E m x"
    by (simp add: forward_def size_dim_def sh init_fields(1)[OF init])
  from run_blocks_shape[OF E G c(2) c(3) c(4) sh, of w b out_ch start cm]
  have "\<exists>y tr. run_blocks E m x = (Inr y, tr)
           \<and> shape y = [B, out_ch, number_of_ico_vertices G n]"
    unfolding m[symmetric] .
  then show ?thesis unfolding f .
qed

theorem forward_output_shape_witness:
  "\<exists>m y tr. fst (SphericalUNet_init example_geometry (\<lambda>oc j. 0) (\<lambda>oc. 0) 2 2 4 2 8
              ''1ring'' ''interp'') = Inr m
     \<and> forward example_engine m (zeros [10, 2, 162]) = (Inr y, tr)
     \<and> shape y = [10, 4, 162]"
proof -
  obtain m where m: "fst (SphericalUNet_init example_geometry (\<lambda>oc j. 0) (\<lambda>oc. 0) 2 2 4 2 8
              ''1ring'' ''interp'') = Inr m"
    using example_init by blast
  have nv: "number_of_ico_vertices example_geometry 2 = 162"
    by (simp add: example_geometry_def)
  have sh: "shape (zeros [10, 2, 162]) = [10, 2, number_of_ico_vertices example_geometry 2]"
    by (simp add: zeros_def nv)
  from forward_output_shape [OF example_geometry_contract example_engine_contract m sh]
  show ?thesis using m by (auto simp: nv)
qed

end
